theory Spec2Isabelle
  imports Complex_Main
begin

section \<open>JavaScript values of the monitor configuration\<close>

text \<open>
  The URL monitor (\<^verbatim>\<open>netlify/functions/url-monitor/index.mjs\<close>) reads its
  expectation rules from plain configuration data. A rule is an arbitrary JavaScript
  value, so the model keeps the value universe: \<^verbatim>\<open>undefined\<close>, \<^verbatim>\<open>null\<close>,
  booleans, numbers, strings, arrays and plain objects (an association list of own
  properties with distinct keys; the first binding of a key is the property).

  A JavaScript number is a double. Every double is \<^verbatim>\<open>NaN\<close>, an infinity or a
  rational number, and the only operations the monitor applies to numbers are equality
  and ordering, which are exact; so a number is modelled by its mathematical value.
\<close>

datatype jsnum = NaN | NegInf | Fin rat | PosInf

datatype jsval =
    JUndefined
  | JNull
  | JBool bool
  | JNum jsnum
  | JStr string
  | JArr "jsval list"
  | JObj "(string \<times> jsval) list"

text \<open>A thrown value, as far as the monitor inspects it: \<^verbatim>\<open>err.name\<close>,
  \<^verbatim>\<open>err.message\<close> and \<^verbatim>\<open>String(err)\<close>.\<close>

record thrown =
  err_name :: string
  err_message :: string
  err_text :: string

definition type_error :: "string \<Rightarrow> thrown" where
  "type_error msg =
     \<lparr>err_name = ''TypeError'', err_message = msg, err_text = ''TypeError: '' @ msg\<rparr>"

definition bindE :: "thrown + 'a \<Rightarrow> ('a \<Rightarrow> thrown + 'b) \<Rightarrow> thrown + 'b" where
  "bindE m f = (case m of Inl e \<Rightarrow> Inl e | Inr v \<Rightarrow> f v)"

lemma bindE_cong [fundef_cong]:
  "m = m' \<Longrightarrow> (\<And>v. m' = Inr v \<Longrightarrow> f v = f' v) \<Longrightarrow> bindE m f = bindE m' f'"
  by (cases m') (simp_all add: bindE_def)

text \<open>\<^verbatim>\<open>!v\<close> is \<open>\<not> truthy v\<close>.\<close>

fun truthy :: "jsval \<Rightarrow> bool" where
  "truthy JUndefined = False"
| "truthy JNull = False"
| "truthy (JBool b) = b"
| "truthy (JNum n) = (n \<noteq> NaN \<and> n \<noteq> Fin 0)"
| "truthy (JStr s) = (s \<noteq> [])"
| "truthy (JArr xs) = True"
| "truthy (JObj kvs) = True"

fun typeof :: "jsval \<Rightarrow> string" where
  "typeof JUndefined = ''undefined''"
| "typeof JNull = ''object''"
| "typeof (JBool b) = ''boolean''"
| "typeof (JNum n) = ''number''"
| "typeof (JStr s) = ''string''"
| "typeof (JArr xs) = ''object''"
| "typeof (JObj kvs) = ''object''"

fun isArray :: "jsval \<Rightarrow> bool" where
  "isArray (JArr xs) = True"
| "isArray v = False"

text \<open>The elements of an array value; only read after \<^verbatim>\<open>Array.isArray\<close> has
  answered true.\<close>

fun elems :: "jsval \<Rightarrow> jsval list" where
  "elems (JArr xs) = xs"
| "elems v = []"

text \<open>Reading an index of an array: out of range gives \<^verbatim>\<open>undefined\<close>, as the
  destructuring \<^verbatim>\<open>const [min, max] = arr\<close> does.\<close>

definition elem_at :: "jsval list \<Rightarrow> nat \<Rightarrow> jsval" where
  "elem_at xs i = (if i < length xs then xs ! i else JUndefined)"

text \<open>
  Property read \<^verbatim>\<open>v.k\<close> for the property names the matcher reads
  (\<^verbatim>\<open>not\<close>, \<^verbatim>\<open>anyOf\<close>, \<^verbatim>\<open>between\<close>, \<^verbatim>\<open>oneOfRanges\<close>): none of them is
  an index or a built-in property of arrays, strings, numbers or booleans, so these
  give \<^verbatim>\<open>undefined\<close>. Reading a property of \<^verbatim>\<open>undefined\<close> or \<^verbatim>\<open>null\<close>
  throws a TypeError.
\<close>

fun get_prop :: "jsval \<Rightarrow> string \<Rightarrow> thrown + jsval" where
  "get_prop JUndefined k =
     Inl (type_error (''Cannot read properties of undefined (reading '' @ k @ '')''))"
| "get_prop JNull k =
     Inl (type_error (''Cannot read properties of null (reading '' @ k @ '')''))"
| "get_prop (JObj kvs) k = Inr (case map_of kvs k of None \<Rightarrow> JUndefined | Some v \<Rightarrow> v)"
| "get_prop v k = Inr JUndefined"

text \<open>
  \<^verbatim>\<open>ToNumber\<close>. On strings, arrays and objects the conversion goes through
  \<^verbatim>\<open>ToPrimitive\<close> and the string-to-number grammar of the language. It gives a
  number or throws a TypeError (an object whose own \<^verbatim>\<open>toString\<close> is not callable has
  no primitive value). That part is the parameter \<open>cv\<close> of the model, and every theorem
  holds for every \<open>cv\<close>.
\<close>

fun to_number :: "(jsval \<Rightarrow> thrown + jsnum) \<Rightarrow> jsval \<Rightarrow> thrown + jsnum" where
  "to_number cv JUndefined = Inr NaN"
| "to_number cv JNull = Inr (Fin 0)"
| "to_number cv (JBool b) = Inr (Fin (if b then 1 else 0))"
| "to_number cv (JNum n) = Inr n"
| "to_number cv v = cv v"

text \<open>Numeric \<open>\<le>\<close> on doubles: false as soon as one side is \<^verbatim>\<open>NaN\<close>.\<close>

fun num_le :: "jsnum \<Rightarrow> jsnum \<Rightarrow> bool" where
  "num_le NaN y = False"
| "num_le x NaN = False"
| "num_le NegInf y = True"
| "num_le x PosInf = True"
| "num_le (Fin a) (Fin b) = (a \<le> b)"
| "num_le x y = False"

text \<open>\<^verbatim>\<open>status >= v\<close> and \<^verbatim>\<open>status <= v\<close> for a numeric status: the conversion
  of \<open>v\<close> may throw.\<close>

definition status_ge :: "(jsval \<Rightarrow> thrown + jsnum) \<Rightarrow> int \<Rightarrow> jsval \<Rightarrow> thrown + bool" where
  "status_ge cv s v = bindE (to_number cv v) (\<lambda>n. Inr (num_le n (Fin (of_int s))))"

definition status_le :: "(jsval \<Rightarrow> thrown + jsnum) \<Rightarrow> int \<Rightarrow> jsval \<Rightarrow> thrown + bool" where
  "status_le cv s v = bindE (to_number cv v) (\<lambda>n. Inr (num_le (Fin (of_int s)) n))"

text \<open>
  \<^verbatim>\<open>const [min, max] = xs; return status >= min && status <= max;\<close> as the code
  has it for \<^verbatim>\<open>between\<close> and for an entry of \<^verbatim>\<open>oneOfRanges\<close>. The second
  comparison is evaluated only when the first is true.
\<close>

definition in_range :: "(jsval \<Rightarrow> thrown + jsnum) \<Rightarrow> int \<Rightarrow> jsval list \<Rightarrow> thrown + bool" where
  "in_range cv s xs =
     (let mn = elem_at xs 0; mx = elem_at xs 1
      in bindE (status_ge cv s mn) (\<lambda>ge. if ge then status_le cv s mx else Inr False))"

text \<open>
  \<^verbatim>\<open>ranges.some((r) => { if (!Array.isArray(r) || r.length !== 2) return false; ... })\<close>:
  the entries in order, up to the first that gives true; an entry that throws ends the
  evaluation.
\<close>

fun some_range :: "(jsval \<Rightarrow> thrown + jsnum) \<Rightarrow> int \<Rightarrow> jsval list \<Rightarrow> thrown + bool" where
  "some_range cv s [] = Inr False"
| "some_range cv s (r # rs) =
     bindE (if \<not> isArray r \<or> length (elems r) \<noteq> 2 then Inr False
            else in_range cv s (elems r))
       (\<lambda>b. if b then Inr True else some_range cv s rs)"

text \<open>\<^verbatim>\<open>arr.includes(status)\<close>: SameValueZero against a number, so only a number
  element of the same value is equal (no coercion of strings).\<close>

definition js_includes :: "jsval list \<Rightarrow> int \<Rightarrow> bool" where
  "js_includes xs s = list_ex (\<lambda>e. e = JNum (Fin (of_int s))) xs"

section \<open>Status code expectation matching\<close>

lemma size_map_of:
  "map_of kvs k = Some v \<Longrightarrow> size v < Suc (size_list (size_prod (\<lambda>_. 0) size) kvs)"
  by (induction kvs) (auto split: if_splits)

lemma size_get_prop: "get_prop e k = Inr v \<Longrightarrow> truthy v \<Longrightarrow> size v < size e"
  by (cases e) (auto split: option.splits dest: size_map_of)

function matchesExpectation :: "(jsval \<Rightarrow> thrown + jsnum) \<Rightarrow> int option \<Rightarrow> jsval \<Rightarrow> thrown + bool" where
  "matchesExpectation cv status expect =
    (case status of
       None \<Rightarrow> Inr False
     | Some s \<Rightarrow>
        if \<not> truthy expect \<or> expect = JStr ''2xx3xx'' then Inr (200 \<le> s \<and> s < 400)
        else if typeof expect = ''object'' then
          bindE (get_prop expect ''not'') (\<lambda>n.
            if truthy n then bindE (matchesExpectation cv status n) (\<lambda>b. Inr (\<not> b))
            else
          bindE (get_prop expect ''anyOf'') (\<lambda>anyOf.
            if truthy anyOf \<and> isArray anyOf then Inr (js_includes (elems anyOf) s)
            else
          bindE (get_prop expect ''between'') (\<lambda>between.
            if truthy between \<and> isArray between \<and> length (elems between) = 2 then
              in_range cv s (elems between)
            else
          bindE (get_prop expect ''oneOfRanges'') (\<lambda>oneOfRanges.
            if truthy oneOfRanges \<and> isArray oneOfRanges then
              some_range cv s (elems oneOfRanges)
            else Inr False))))
        else Inr False)"
  by pat_completeness auto
termination
  by (relation "measure (\<lambda>(cv, status, expect). size expect)") (auto dest: size_get_prop)

declare matchesExpectation.simps [simp del]

section \<open>Monitors, attempts and the runtime\<close>

text \<open>
  A monitor as configured in \<^verbatim>\<open>MONITORS\<close>. An absent property is \<open>None\<close>
  (\<open>JUndefined\<close> for \<^verbatim>\<open>expect\<close>); \<open>http_method\<close> is the property \<^verbatim>\<open>method\<close>. \<^verbatim>\<open>retries\<close> and \<^verbatim>\<open>timeoutMs\<close> are
  integer counts of attempts and of milliseconds.
\<close>

record monitor =
  url :: string
  http_method :: "string option"
  timeoutMs :: "int option"
  retries :: "int option"
  expect :: jsval

text \<open>The object \<^verbatim>\<open>checkOnce\<close> returns.\<close>

record attempt =
  ok :: bool
  status :: "int option"
  statusText :: "string option"
  error :: "string option"
  durationMs :: int

text \<open>The object \<^verbatim>\<open>summarizeAttempts\<close> returns; \<open>r_url\<close>, \<open>r_ok\<close>, \<open>r_expect\<close> and
  \<open>r_method\<close> are its properties \<^verbatim>\<open>url\<close>, \<^verbatim>\<open>ok\<close>, \<^verbatim>\<open>expect\<close> and \<^verbatim>\<open>method\<close>.\<close>

record result =
  r_url :: string
  r_ok :: bool
  r_expect :: jsval
  r_method :: string
  attempts :: int
  lastStatus :: "int option"
  lastError :: "string option"
  attemptDetails :: "attempt list"

text \<open>
  What \<^verbatim>\<open>await fetch(...)\<close> gives: a response (its \<^verbatim>\<open>status\<close> and
  \<^verbatim>\<open>statusText\<close>) or a rejection with the thrown value, which is an
  \<^verbatim>\<open>AbortError\<close> when the abort timer fired first.
\<close>

datatype fetch_result = Response int string | Rejected thrown

text \<open>
  The world outside the function is a state of any type \<open>'w\<close> with three operations:
  a request (address, method) answered by the network, the clock \<^verbatim>\<open>Date.now()\<close>,
  and the passing of time during a sleep. The calls the code makes are logged in order.
\<close>

record 'w runtime =
  rt_fetch :: "string \<Rightarrow> string \<Rightarrow> 'w \<Rightarrow> fetch_result \<times> 'w"
  rt_now :: "'w \<Rightarrow> int"
  rt_sleep :: "rat \<Rightarrow> 'w \<Rightarrow> 'w"

datatype event = SetTimeout int | ClearTimeout | Fetch string string | Sleep rat

record 'w state =
  world :: 'w
  trace :: "event list"

definition emit :: "event \<Rightarrow> 'w state \<Rightarrow> 'w state" where
  "emit e s = s\<lparr>trace := trace s @ [e]\<rparr>"

definition do_fetch :: "'w runtime \<Rightarrow> string \<Rightarrow> string \<Rightarrow> 'w state \<Rightarrow> fetch_result \<times> 'w state" where
  "do_fetch rt u m s =
     (let (res, w) = rt_fetch rt u m (world s)
      in (res, \<lparr>world = w, trace = trace s @ [Fetch u m]\<rparr>))"

definition sleep :: "'w runtime \<Rightarrow> rat \<Rightarrow> 'w state \<Rightarrow> 'w state" where
  "sleep rt ms s = \<lparr>world = rt_sleep rt ms (world s), trace = trace s @ [Sleep ms]\<rparr>"

section \<open>Core monitoring logic\<close>

text \<open>
  \<^verbatim>\<open>backoffMs\<close>: \<^verbatim>\<open>Math.min(2000, 250 * Math.pow(2, attemptIndex - 1))\<close>, for an
  integer \<^verbatim>\<open>attemptIndex\<close>. From 1 on, which is how the loop calls it, the double is
  the exact value (where the power overflows, the minimum is 2000 all the same); far
  below 0 the double underflows to 0 and the exact value does not.
\<close>

definition backoffMs :: "int \<Rightarrow> rat" where
  "backoffMs attemptIndex = min 2000 (250 * (2 powi (attemptIndex - 1)))"

text \<open>The text \<^verbatim>\<open>checkOnce\<close> records for a thrown value:
  \<^verbatim>\<open>err?.name === "AbortError" ? "timeout" : String(err?.message || err)\<close>.\<close>

definition error_text :: "thrown \<Rightarrow> string" where
  "error_text err =
     (if err_name err = ''AbortError'' then ''timeout''
      else if err_message err \<noteq> [] then err_message err else err_text err)"

text \<open>
  The attempt \<^verbatim>\<open>checkOnce\<close> builds from the final outcome \<open>res\<close> of its requests: the
  end of the \<^verbatim>\<open>try\<close> block for a response, the \<^verbatim>\<open>catch\<close> block for a rejection
  (and for anything the matcher would throw, since the call is inside the \<^verbatim>\<open>try\<close>).
\<close>

definition attempt_of :: "(jsval \<Rightarrow> thrown + jsnum) \<Rightarrow> monitor \<Rightarrow> fetch_result \<Rightarrow> int \<Rightarrow> attempt" where
  "attempt_of cv monitor res dur =
     (case (case res of
              Rejected err \<Rightarrow> Inl err
            | Response st txt \<Rightarrow>
                bindE (matchesExpectation cv (Some st) (expect monitor)) (\<lambda>b. Inr (b, st, txt))) of
        Inr (b, st, txt) \<Rightarrow>
          \<lparr>ok = b, status = Some st, statusText = Some txt, error = None, durationMs = dur\<rparr>
      | Inl err \<Rightarrow>
          \<lparr>ok = False, status = None, statusText = None, error = Some (error_text err),
           durationMs = dur\<rparr>)"

text \<open>\<^verbatim>\<open>monitor.method || "HEAD"\<close>.\<close>

definition probe_method :: "monitor \<Rightarrow> string" where
  "probe_method monitor =
     (case http_method monitor of None \<Rightarrow> ''HEAD'' | Some m \<Rightarrow> if m = [] then ''HEAD'' else m)"

definition checkOnce ::
  "(jsval \<Rightarrow> thrown + jsnum) \<Rightarrow> 'w runtime \<Rightarrow> monitor \<Rightarrow> int \<Rightarrow> 'w state \<Rightarrow> attempt \<times> 'w state" where
  "checkOnce cv rt monitor timeout_ms s0 =
     (let s1 = emit (SetTimeout timeout_ms) s0;
          startedAt = rt_now rt (world s1);
          m = probe_method monitor;
          (res1, s2) = do_fetch rt (url monitor) m s1;
          (res, s3) =
            (case res1 of
               Response st txt \<Rightarrow>
                 if (st = 405 \<or> st = 501) \<and> m = ''HEAD''
                 then do_fetch rt (url monitor) ''GET'' s2
                 else (res1, s2)
             | Rejected err \<Rightarrow> (res1, s2))
      in (attempt_of cv monitor res (rt_now rt (world s3) - startedAt),
          emit ClearTimeout s3))"

text \<open>
  \<^verbatim>\<open>summarizeAttempts\<close>. With no attempt, \<^verbatim>\<open>attempts[attempts.length - 1]\<close> is
  \<^verbatim>\<open>undefined\<close> and reading \<^verbatim>\<open>last.status\<close> throws.
\<close>

definition summarizeAttempts :: "monitor \<Rightarrow> attempt list \<Rightarrow> thrown + result" where
  "summarizeAttempts monitor atts =
     (if atts = [] then
        Inl (type_error ''Cannot read properties of undefined (reading status)'')
      else
        (let lst = atts ! (length atts - 1)
         in Inr \<lparr>r_url = url monitor,
                 r_ok = list_ex ok atts,
                 r_expect = (case expect monitor of
                               JUndefined \<Rightarrow> JStr ''2xx3xx''
                             | JNull \<Rightarrow> JStr ''2xx3xx''
                             | v \<Rightarrow> v),
                 r_method = (case http_method monitor of None \<Rightarrow> ''HEAD'' | Some m \<Rightarrow> m),
                 attempts = int (length atts),
                 lastStatus = status lst,
                 lastError = error lst,
                 attemptDetails = atts\<rparr>))"

text \<open>The \<^verbatim>\<open>for\<close> loop of \<^verbatim>\<open>checkWithRetries\<close>, from the value \<open>i\<close> of its counter.\<close>

function retry_loop ::
  "(jsval \<Rightarrow> thrown + jsnum) \<Rightarrow> 'w runtime \<Rightarrow> monitor \<Rightarrow> int \<Rightarrow> int \<Rightarrow> int \<Rightarrow> attempt list \<Rightarrow> 'w state
   \<Rightarrow> (thrown + result) \<times> 'w state" where
  "retry_loop cv rt monitor timeout_ms totalAttempts i atts s =
     (if i \<le> totalAttempts then
        (let (att, s1) = checkOnce cv rt monitor timeout_ms s;
             atts1 = atts @ [att]
         in if ok att then (summarizeAttempts monitor atts1, s1)
            else retry_loop cv rt monitor timeout_ms totalAttempts (i + 1) atts1
                   (if i < totalAttempts then sleep rt (backoffMs i) s1 else s1))
      else (summarizeAttempts monitor atts, s))"
  by pat_completeness auto
termination
  by (relation "measure (\<lambda>(cv, rt, monitor, timeout_ms, totalAttempts, i, atts, s).
                  nat (totalAttempts + 1 - i))") auto

declare retry_loop.simps [simp del]

text \<open>\<^verbatim>\<open>const totalAttempts = Math.max(1, retries + 1)\<close>.\<close>

definition totalAttempts :: "int \<Rightarrow> int" where
  "totalAttempts retries_n = max 1 (retries_n + 1)"

definition checkWithRetries ::
  "(jsval \<Rightarrow> thrown + jsnum) \<Rightarrow> 'w runtime \<Rightarrow> monitor \<Rightarrow> int \<Rightarrow> int \<Rightarrow> 'w state
   \<Rightarrow> (thrown + result) \<times> 'w state" where
  "checkWithRetries cv rt monitor timeout_ms retries_n s =
     retry_loop cv rt monitor timeout_ms (totalAttempts retries_n) 1 [] s"

section \<open>Limited concurrency\<close>

text \<open>
  \<^verbatim>\<open>mapLimit\<close> starts \<^verbatim>\<open>Math.min(limit, items.length)\<close> workers that share the
  cursor \<^verbatim>\<open>i\<close> and the array \<^verbatim>\<open>ret\<close>. JavaScript runs a worker without
  interruption from one \<^verbatim>\<open>await\<close> to the next, so the state between two such runs
  is: the cursor, the array (\<open>None\<close> is a hole), and for each worker the index whose
  call \<^verbatim>\<open>fn(items[idx])\<close> it awaits (\<open>None\<close> once its loop has ended).
\<close>

record 'b pool =
  cursor :: nat
  ret :: "'b option list"
  workers :: "nat option list"

text \<open>\<^verbatim>\<open>ret[idx] = v\<close>: writing past the end extends the array with holes.\<close>

definition store :: "'b option list \<Rightarrow> nat \<Rightarrow> 'b \<Rightarrow> 'b option list" where
  "store ys idx v =
     (if idx < length ys then ys[idx := Some v]
      else ys @ replicate (idx - length ys) None @ [Some v])"

text \<open>The loop head \<^verbatim>\<open>while (i < items.length) { const idx = i++; ... await fn(items[idx])\<close>:
  the next index the worker awaits, or the end of its loop.\<close>

definition claim :: "'a list \<Rightarrow> 'b pool \<Rightarrow> nat option \<times> 'b pool" where
  "claim items p =
     (if cursor p < length items then (Some (cursor p), p\<lparr>cursor := cursor p + 1\<rparr>)
      else (None, p))"

text \<open>\<^verbatim>\<open>Array.from\<close> calls the worker function once per worker, in order; each call
  runs to its first \<^verbatim>\<open>await\<close>.\<close>

definition launch :: "'a list \<Rightarrow> 'b pool \<Rightarrow> 'b pool" where
  "launch items p = (let (w, p1) = claim items p in p1\<lparr>workers := workers p1 @ [w]\<rparr>)"

fun launch_all :: "'a list \<Rightarrow> nat \<Rightarrow> 'b pool \<Rightarrow> 'b pool" where
  "launch_all items 0 p = p"
| "launch_all items (Suc n) p = launch_all items n (launch items p)"

text \<open>A negative \<^verbatim>\<open>length\<close> given to \<^verbatim>\<open>Array.from\<close> counts as 0.\<close>

definition start :: "'a list \<Rightarrow> int \<Rightarrow> 'b pool" where
  "start items limit =
     launch_all items (nat (min limit (int (length items))))
       \<lparr>cursor = 0, ret = [], workers = []\<rparr>"

text \<open>
  One step: the call awaited by worker \<open>k\<close> resolves with \<open>v\<close>. The worker stores
  it at the index it had claimed and goes back to its loop head. \<open>fn x v\<close> says that
  \<open>v\<close> is a value the call \<^verbatim>\<open>fn(x)\<close> can resolve with; a step that is not one of
  this run (no such worker, a worker that awaits nothing, a value \<^verbatim>\<open>fn\<close> does not
  give) is \<open>None\<close>. A call that rejects is not a step of the model: the function the
  handler passes is \<^verbatim>\<open>checkWithRetries\<close>, which returns a result on every input.
\<close>

definition resume :: "('a \<Rightarrow> 'b \<Rightarrow> bool) \<Rightarrow> 'a list \<Rightarrow> nat \<times> 'b \<Rightarrow> 'b pool \<Rightarrow> 'b pool option" where
  "resume fn items kv p =
     (let k = fst kv; v = snd kv in
      if k < length (workers p) then
        (case workers p ! k of
           None \<Rightarrow> None
         | Some idx \<Rightarrow>
             if idx < length items \<and> fn (items ! idx) v then
               (let (w, p1) = claim items (p\<lparr>ret := store (ret p) idx v\<rparr>)
                in Some (p1\<lparr>workers := (workers p1)[k := w]\<rparr>))
             else None)
      else None)"

text \<open>The steps of a run, in the order in which the awaited calls resolve.\<close>

fun run :: "('a \<Rightarrow> 'b \<Rightarrow> bool) \<Rightarrow> 'a list \<Rightarrow> (nat \<times> 'b) list \<Rightarrow> 'b pool \<Rightarrow> 'b pool option" where
  "run fn items [] p = Some p"
| "run fn items (kv # sched) p =
     (case resume fn items kv p of None \<Rightarrow> None | Some p1 \<Rightarrow> run fn items sched p1)"

definition finished :: "'b pool \<Rightarrow> bool" where
  "finished p = list_all (\<lambda>w. w = None) (workers p)"

text \<open>
  \<^verbatim>\<open>mapLimit\<close> along a completion order \<open>sched\<close>: \<^verbatim>\<open>Promise.all(workers)\<close> resolves
  when every worker has ended, and the function returns \<^verbatim>\<open>ret\<close>. \<open>None\<close>: \<open>sched\<close>
  is not a complete run of this call.
\<close>

definition mapLimit ::
  "'a list \<Rightarrow> int \<Rightarrow> ('a \<Rightarrow> 'b \<Rightarrow> bool) \<Rightarrow> (nat \<times> 'b) list \<Rightarrow> 'b option list option" where
  "mapLimit items limit fn sched =
     (case run fn items sched (start items limit) of
        None \<Rightarrow> None
      | Some p \<Rightarrow> if finished p then Some (ret p) else None)"

section \<open>The handler\<close>

text \<open>
  The exported handler, after \<^verbatim>\<open>results\<close> has been awaited from \<^verbatim>\<open>mapLimit\<close>.
  Its inputs: the environment variables, the \<^verbatim>\<open>authorization\<close> header, the results,
  what sending the alert through Resend gives for the down list and the results
  (\<open>Sent\<close> with \<^verbatim>\<open>resp?.data?.id ?? null\<close>, or the thrown value), the clock at the
  start and at the return, and the ISO timestamp.
\<close>

record env =
  MONITOR_TOKEN :: "string option"
  RESEND_API_KEY :: "string option"
  ALERT_EMAIL_TO :: "string option"
  ALERT_EMAIL_FROM :: "string option"

datatype send_result = Sent "string option" | SendThrew thrown

record totals =
  checked :: int
  down :: int
  up :: int

text \<open>The JSON bodies with totals; a property the body does not have is \<open>None\<close>.\<close>

record report =
  rep_ok :: bool
  rep_error :: "string option"
  rep_details :: "string option"
  rep_emailSent :: "bool option"
  rep_emailId :: "string option option"
  rep_totals :: totals
  rep_down :: "result list"
  rep_results :: "result list"
  rep_durationMs :: int
  rep_timestamp :: "string option"

datatype body = ErrorBody string | ReportBody report

text \<open>A string of the environment or of a header is falsy when absent or empty.\<close>

definition present :: "string option \<Rightarrow> bool" where
  "present v = (case v of None \<Rightarrow> False | Some x \<Rightarrow> x \<noteq> [])"

text \<open>The auth guard: a token is configured and the header is not \<^verbatim>\<open>Bearer <token>\<close>.\<close>

definition unauthorized :: "env \<Rightarrow> string option \<Rightarrow> bool" where
  "unauthorized e authorization =
     (case MONITOR_TOKEN e of
        None \<Rightarrow> False
      | Some token \<Rightarrow>
          token \<noteq> [] \<and>
          (case authorization of None \<Rightarrow> [] | Some a \<Rightarrow> a) \<noteq> ''Bearer '' @ token)"

definition handler ::
  "env \<Rightarrow> string option \<Rightarrow> result list \<Rightarrow> (result list \<Rightarrow> result list \<Rightarrow> send_result)
   \<Rightarrow> int \<Rightarrow> int \<Rightarrow> string \<Rightarrow> body \<times> int" where
  "handler e authorization results send startedAt now timestamp =
     (if unauthorized e authorization then (ErrorBody ''Unauthorized'', 401)
      else
       (let dn = filter (\<lambda>r. \<not> r_ok r) results;
            tot = \<lparr>checked = int (length results), down = int (length dn),
                   up = int (length results) - int (length dn)\<rparr>
        in if length dn > 0 then
             (if \<not> present (RESEND_API_KEY e) \<or> \<not> present (ALERT_EMAIL_TO e)
                 \<or> \<not> present (ALERT_EMAIL_FROM e) then
                (ReportBody
                   \<lparr>rep_ok = False,
                    rep_error = Some ''Some URLs are down, but RESEND_API_KEY / ALERT_EMAIL_TO / ALERT_EMAIL_FROM env vars are missing.'',
                    rep_details = None, rep_emailSent = None, rep_emailId = None,
                    rep_totals = tot, rep_down = dn, rep_results = results,
                    rep_durationMs = now - startedAt, rep_timestamp = None\<rparr>, 500)
              else
                (case send dn results of
                   SendThrew err \<Rightarrow>
                     (ReportBody
                        \<lparr>rep_ok = False,
                         rep_error = Some ''Failed to send alert email via Resend.'',
                         rep_details =
                           Some (if err_message err \<noteq> [] then err_message err else err_text err),
                         rep_emailSent = None, rep_emailId = None,
                         rep_totals = tot, rep_down = dn, rep_results = results,
                         rep_durationMs = now - startedAt, rep_timestamp = None\<rparr>, 502)
                 | Sent emailId \<Rightarrow>
                     (ReportBody
                        \<lparr>rep_ok = (length dn = 0),
                         rep_error = None, rep_details = None,
                         rep_emailSent = Some True, rep_emailId = Some emailId,
                         rep_totals = tot, rep_down = dn, rep_results = results,
                         rep_durationMs = now - startedAt, rep_timestamp = Some timestamp\<rparr>, 200)))
           else
             (ReportBody
                \<lparr>rep_ok = (length dn = 0),
                 rep_error = None, rep_details = None,
                 rep_emailSent = Some False, rep_emailId = Some None,
                 rep_totals = tot, rep_down = dn, rep_results = results,
                 rep_durationMs = now - startedAt, rep_timestamp = Some timestamp\<rparr>, 200)))"

section \<open>Concrete runs\<close>

text \<open>
  A concrete world for running the model: the answers of the network are a list,
  used up one per request (a request beyond the list is a failed connection); the
  clock advances by one millisecond per request and by the delay of each sleep.
\<close>

definition scripted :: "(fetch_result list \<times> int) runtime" where
  "scripted =
     \<lparr>rt_fetch = (\<lambda>u m w.
          case fst w of
            [] \<Rightarrow> (Rejected \<lparr>err_name = ''TypeError'', err_message = ''fetch failed'',
                               err_text = ''TypeError: fetch failed''\<rparr>, w)
          | r # rs \<Rightarrow> (r, (rs, snd w + 1))),
      rt_now = snd,
      rt_sleep = (\<lambda>ms w. (fst w, snd w + \<lfloor>ms\<rfloor>))\<rparr>"

definition script :: "fetch_result list \<Rightarrow> (fetch_result list \<times> int) state" where
  "script rs = \<lparr>world = (rs, 0), trace = []\<rparr>"

text \<open>A monitor with the defaults: HEAD, and the rule 2xx/3xx.\<close>

definition example_monitor :: monitor where
  "example_monitor =
     \<lparr>url = ''https://a.example'', http_method = None, timeoutMs = None, retries = None,
      expect = JUndefined\<rparr>"

text \<open>Two results, one up and one down, and a mail provider that accepts the alert.\<close>

definition up_result :: result where
  "up_result =
     \<lparr>r_url = ''https://a.example'', r_ok = True, r_expect = JStr ''2xx3xx'', r_method = ''HEAD'',
      attempts = 1, lastStatus = Some 200, lastError = None,
      attemptDetails = [\<lparr>ok = True, status = Some 200, statusText = Some ''OK'', error = None,
                         durationMs = 12\<rparr>]\<rparr>"

definition down_result :: result where
  "down_result =
     \<lparr>r_url = ''https://b.example'', r_ok = False, r_expect = JStr ''2xx3xx'', r_method = ''HEAD'',
      attempts = 1, lastStatus = Some 500, lastError = None,
      attemptDetails = [\<lparr>ok = False, status = Some 500, statusText = Some ''Server Error'',
                         error = None, durationMs = 9\<rparr>]\<rparr>"

definition send_ok :: "result list \<Rightarrow> result list \<Rightarrow> send_result" where
  "send_ok dn results = Sent (Some ''email-id'')"

text \<open>
  A conversion for concrete runs. An object with an own property \<^verbatim>\<open>toString\<close> (its
  value is data, so not callable) has no primitive value, and neither has an array with
  such an element: the conversion throws a TypeError. On the other arrays and objects and
  on strings it gives \<^verbatim>\<open>NaN\<close>, which is what the language gives when the text does
  not read as a number; no concrete run here converts one that does.
\<close>

fun no_primitive :: "jsval \<Rightarrow> bool" where
  "no_primitive (JObj kvs) = (''toString'' \<in> set (map fst kvs))"
| "no_primitive (JArr xs) = list_ex no_primitive xs"
| "no_primitive v = False"

definition cv_plain :: "jsval \<Rightarrow> thrown + jsnum" where
  "cv_plain v =
     (if no_primitive v then Inl (type_error ''Cannot convert object to primitive value'')
      else Inr NaN)"

section \<open>Notions used in the properties\<close>

subsection \<open>Rules\<close>

text \<open>The rule \<^verbatim>\<open>{ not: R }\<close>.\<close>

definition negate :: "jsval \<Rightarrow> jsval" where
  "negate R = JObj [(''not'', R)]"

text \<open>The value of a property of a rule; \<^verbatim>\<open>undefined\<close> where there is none.\<close>

definition prop_val :: "jsval \<Rightarrow> string \<Rightarrow> jsval" where
  "prop_val e k = (case get_prop e k of Inl err \<Rightarrow> JUndefined | Inr v \<Rightarrow> v)"

text \<open>A range is an array of length 2.\<close>

definition wellformed_range :: "jsval \<Rightarrow> bool" where
  "wellformed_range r = (isArray r \<and> length (elems r) = 2)"

text \<open>
  The recognized forms of a rule: the default (the string \<^verbatim>\<open>"2xx3xx"\<close>, or a falsy
  value such as an absent \<^verbatim>\<open>expect\<close>), or an object that carries a negation (a truthy
  \<^verbatim>\<open>not\<close>), a fixed set (an array \<^verbatim>\<open>anyOf\<close>), a single range (an array
  \<^verbatim>\<open>between\<close> of length 2) or a range set (an array \<^verbatim>\<open>oneOfRanges\<close>).
\<close>

definition recognized :: "jsval \<Rightarrow> bool" where
  "recognized e =
     (\<not> truthy e \<or> e = JStr ''2xx3xx'' \<or>
      (typeof e = ''object'' \<and>
        (truthy (prop_val e ''not'') \<or>
         isArray (prop_val e ''anyOf'') \<or>
         wellformed_range (prop_val e ''between'') \<or>
         isArray (prop_val e ''oneOfRanges''))))"

definition unrecognized :: "jsval \<Rightarrow> bool" where
  "unrecognized e = (\<not> recognized e)"

text \<open>The negation law at a status \<open>x\<close> and a rule \<open>R\<close>: evaluating \<^verbatim>\<open>{ not: R }\<close>
  returns the negation of what evaluating \<open>R\<close> returns, and throws what it throws.\<close>

definition negation_law :: "(jsval \<Rightarrow> thrown + jsnum) \<Rightarrow> int option \<Rightarrow> jsval \<Rightarrow> bool" where
  "negation_law cv x R =
     (matchesExpectation cv x (negate R) =
      bindE (matchesExpectation cv x R) (\<lambda>b. Inr (\<not> b)))"

subsection \<open>Traces\<close>

text \<open>The delays slept, the abort timers armed (one per probe) and the requests issued,
  in the order of the trace.\<close>

fun sleeps :: "event list \<Rightarrow> rat list" where
  "sleeps [] = []"
| "sleeps (Sleep ms # es) = ms # sleeps es"
| "sleeps (e # es) = sleeps es"

fun timers :: "event list \<Rightarrow> int list" where
  "timers [] = []"
| "timers (SetTimeout t # es) = t # timers es"
| "timers (e # es) = timers es"

fun fetches :: "event list \<Rightarrow> (string \<times> string) list" where
  "fetches [] = []"
| "fetches (Fetch u m # es) = (u, m) # fetches es"
| "fetches (e # es) = fetches es"

text \<open>The probes and the sleeps of a trace, in order: a probe starts where its abort
  timer is armed.\<close>

fun pacing :: "event list \<Rightarrow> event list" where
  "pacing [] = []"
| "pacing (SetTimeout t # es) = SetTimeout t # pacing es"
| "pacing (Sleep ms # es) = Sleep ms # pacing es"
| "pacing (e # es) = pacing es"

text \<open>\<open>n\<close> probes, the first with loop counter \<open>i\<close>, with the backoff of each failed
  probe between it and the next, and nothing after the last.\<close>

fun expected_pacing :: "int \<Rightarrow> int \<Rightarrow> nat \<Rightarrow> event list" where
  "expected_pacing t i 0 = []"
| "expected_pacing t i (Suc 0) = [SetTimeout t]"
| "expected_pacing t i (Suc (Suc n)) =
     SetTimeout t # Sleep (backoffMs i) # expected_pacing t (i + 1) (Suc n)"

text \<open>A response with status 405 or 501.\<close>

definition rejects_head :: "fetch_result \<Rightarrow> bool" where
  "rejects_head r = (case r of Response st txt \<Rightarrow> st = 405 \<or> st = 501 | Rejected err \<Rightarrow> False)"

subsection \<open>The sequence of probe outcomes\<close>

text \<open>
  The state in which probe \<open>k + 1\<close> starts when the \<open>k\<close> probes before it have failed
  (each followed by its backoff, unless it was the last allowed one), and the outcome of
  that probe.
\<close>

fun nth_state ::
  "(jsval \<Rightarrow> thrown + jsnum) \<Rightarrow> 'w runtime \<Rightarrow> monitor \<Rightarrow> int \<Rightarrow> int \<Rightarrow> nat \<Rightarrow> 'w state \<Rightarrow> 'w state" where
  "nth_state cv rt m t tot 0 s = s"
| "nth_state cv rt m t tot (Suc k) s =
     (let s1 = snd (checkOnce cv rt m t (nth_state cv rt m t tot k s))
      in if int (Suc k) < tot then sleep rt (backoffMs (int (Suc k))) s1 else s1)"

definition nth_attempt ::
  "(jsval \<Rightarrow> thrown + jsnum) \<Rightarrow> 'w runtime \<Rightarrow> monitor \<Rightarrow> int \<Rightarrow> int \<Rightarrow> 'w state \<Rightarrow> nat \<Rightarrow> attempt" where
  "nth_attempt cv rt m t tot s k = fst (checkOnce cv rt m t (nth_state cv rt m t tot k s))"

text \<open>What the loop of \<^verbatim>\<open>checkWithRetries\<close> has done when it returns \<open>out\<close>, started
  with counter \<open>i\<close>, attempts \<open>atts\<close> and state \<open>s\<close>: \<open>new\<close> are the attempts it added.\<close>

definition loop_post ::
  "monitor \<Rightarrow> int \<Rightarrow> int \<Rightarrow> int \<Rightarrow> attempt list \<Rightarrow> 'w state \<Rightarrow> attempt list
   \<Rightarrow> (thrown + result) \<times> 'w state \<Rightarrow> bool" where
  "loop_post m t tot i atts s new out =
     (new \<noteq> [] \<and> fst out = summarizeAttempts m (atts @ new) \<and>
      list_all (\<lambda>a. \<not> ok a) (butlast new) \<and>
      int (length new) \<le> tot - i + 1 \<and>
      (ok (last new) \<or> int (length new) = tot - i + 1) \<and>
      sleeps (trace (snd out)) = sleeps (trace s) @ map backoffMs [i .. i + int (length new) - 2] \<and>
      timers (trace (snd out)) = timers (trace s) @ replicate (length new) t \<and>
      pacing (trace (snd out)) = pacing (trace s) @ expected_pacing t i (length new))"

subsection \<open>Runs of the worker pool\<close>

text \<open>A call \<^verbatim>\<open>fn(x)\<close> that resolves with \<open>f x\<close>.\<close>

definition returns :: "('a \<Rightarrow> 'b) \<Rightarrow> 'a \<Rightarrow> 'b \<Rightarrow> bool" where
  "returns f x v = (v = f x)"

text \<open>
  The invariant of the pool: every index below the cursor is either awaited by a worker
  or already stored with a value of its own item; nothing is stored at or above the
  cursor; a worker ends only when the cursor has reached the end.
\<close>

definition pool_inv :: "('a \<Rightarrow> 'b \<Rightarrow> bool) \<Rightarrow> 'a list \<Rightarrow> 'b pool \<Rightarrow> bool" where
  "pool_inv fn items p =
     (cursor p \<le> length items \<and> length (ret p) \<le> cursor p \<and>
      (\<forall>idx. Some idx \<in> set (workers p) \<longrightarrow> idx < cursor p) \<and>
      (None \<in> set (workers p) \<longrightarrow> cursor p = length items) \<and>
      (\<forall>j < cursor p. Some j \<in> set (workers p) \<or>
           (j < length (ret p) \<and> (\<exists>v. ret p ! j = Some v \<and> fn (items ! j) v))))"

text \<open>The calls still to resolve: the items not yet claimed and the workers that await one.\<close>

definition busy :: "nat option list \<Rightarrow> nat" where
  "busy ws = length (filter (\<lambda>w. w \<noteq> None) ws)"

definition remaining :: "'a list \<Rightarrow> 'b pool \<Rightarrow> nat" where
  "remaining items p = (length items - cursor p) + busy (workers p)"

section \<open>The expectation matcher\<close>

lemma isArray_truthy: "isArray v \<Longrightarrow> truthy v"
  by (cases v) simp_all

lemma get_prop_object:
  "truthy e \<Longrightarrow> typeof e = ''object'' \<Longrightarrow> get_prop e k = Inr (prop_val e k)"
  by (cases e) (simp_all add: prop_val_def)

lemma matches_absent: "matchesExpectation cv None e = Inr False"
  by (subst matchesExpectation.simps) simp

lemma matches_default:
  "\<not> truthy e \<or> e = JStr ''2xx3xx'' \<Longrightarrow>
   matchesExpectation cv (Some s) e = Inr (200 \<le> s \<and> s < 400)"
  by (subst matchesExpectation.simps) auto

lemma matches_non_object:
  "truthy e \<Longrightarrow> e \<noteq> JStr ''2xx3xx'' \<Longrightarrow> typeof e \<noteq> ''object'' \<Longrightarrow>
   matchesExpectation cv (Some s) e = Inr False"
  by (subst matchesExpectation.simps) simp

lemma matches_not:
  "truthy e \<Longrightarrow> typeof e = ''object'' \<Longrightarrow> truthy (prop_val e ''not'') \<Longrightarrow>
   matchesExpectation cv (Some s) e =
     bindE (matchesExpectation cv (Some s) (prop_val e ''not'')) (\<lambda>b. Inr (\<not> b))"
  by (subst matchesExpectation.simps) (auto simp: get_prop_object bindE_def)

text \<open>The matcher on an object without a negation, form by form in the order of the
  code; the comparisons of a range may throw.\<close>

lemma matches_object:
  "truthy e \<Longrightarrow> typeof e = ''object'' \<Longrightarrow> \<not> truthy (prop_val e ''not'') \<Longrightarrow>
   matchesExpectation cv (Some s) e =
     (if isArray (prop_val e ''anyOf'') then Inr (js_includes (elems (prop_val e ''anyOf'')) s)
      else if wellformed_range (prop_val e ''between'') then
        in_range cv s (elems (prop_val e ''between''))
      else if isArray (prop_val e ''oneOfRanges'') then
        some_range cv s (elems (prop_val e ''oneOfRanges''))
      else Inr False)"
  by (subst matchesExpectation.simps)
     (auto simp: get_prop_object bindE_def wellformed_range_def isArray_truthy)



lemma matches_unrecognized:
  assumes "unrecognized e"
  shows "matchesExpectation cv x e = Inr False"
proof (cases x)
  case None
  then show ?thesis by (simp add: matches_absent)
next
  case (Some s)
  show ?thesis
  proof (cases "typeof e = ''object''")
    case True
    then show ?thesis using assms Some
      by (simp add: unrecognized_def recognized_def matches_object)
  next
    case False
    then show ?thesis using assms Some
      by (simp add: unrecognized_def recognized_def matches_non_object)
  qed
qed

text \<open>The matcher throws where a bound of a range has no primitive value.\<close>

lemma matches_bound_without_primitive:
  "matchesExpectation cv_plain (Some 200)
     (JObj [(''between'', JArr [JObj [(''toString'', JNum (Fin 1))], JNum (Fin 299)])])
   = Inl (type_error ''Cannot convert object to primitive value'')"
  by (simp add: matchesExpectation.simps bindE_def in_range_def elem_at_def status_ge_def
        cv_plain_def)

text \<open>
  C2, as amended: for every numeric status code \<open>s\<close> and every rule \<open>R\<close> that is a truthy
  value, evaluating \<^verbatim>\<open>{ not: R }\<close> returns the negation of the boolean that evaluating
  \<open>R\<close> returns, whenever that evaluation returns; when it throws, so does the evaluation of
  \<^verbatim>\<open>{ not: R }\<close>.
\<close>

theorem negation_law_numeric_truthy:
  assumes "truthy R"
  shows "negation_law cv (Some s) R \<and>
         (matchesExpectation cv (Some s) R = Inr b \<longrightarrow>
            matchesExpectation cv (Some s) (negate R) = Inr (\<not> b)) \<and>
         (matchesExpectation cv (Some s) R = Inl err \<longrightarrow>
            matchesExpectation cv (Some s) (negate R) = Inl err)"
proof -
  have "prop_val (negate R) ''not'' = R" by (simp add: negate_def prop_val_def)
  then have "matchesExpectation cv (Some s) (negate R) =
             bindE (matchesExpectation cv (Some s) R) (\<lambda>b. Inr (\<not> b))"
    using assms matches_not[of "negate R" cv s] by (simp add: negate_def)
  then show ?thesis by (simp add: negation_law_def bindE_def)
qed

theorem negation_law_numeric_truthy_witness:
  "truthy (JObj [(''anyOf'', JArr [JNum (Fin 503)])]) \<and>
   matchesExpectation cv_plain (Some 503) (JObj [(''anyOf'', JArr [JNum (Fin 503)])]) = Inr True \<and>
   matchesExpectation cv_plain (Some 503) (negate (JObj [(''anyOf'', JArr [JNum (Fin 503)])]))
     = Inr False \<and>
   negation_law cv_plain (Some 503) (JObj [(''anyOf'', JArr [JNum (Fin 503)])])"
proof -
  have t: "truthy (JObj [(''anyOf'', JArr [JNum (Fin 503)])])" by simp
  have m: "matchesExpectation cv_plain (Some 503) (JObj [(''anyOf'', JArr [JNum (Fin 503)])])
           = Inr True"
    by (simp add: matchesExpectation.simps bindE_def js_includes_def)
  show ?thesis
    using t m negation_law_numeric_truthy
      [of "JObj [(''anyOf'', JArr [JNum (Fin 503)])]" cv_plain 503 True]
    by simp
qed

text \<open>
  C2 as stated fails: with an absent status the matcher answers false for the rule
  \<^verbatim>\<open>"2xx3xx"\<close> and for its negation alike; and the negation of a falsy rule
  (\<^verbatim>\<open>{ not: null }\<close>) is not read as a negation, so at status 500 both \<^verbatim>\<open>null\<close> and
  \<^verbatim>\<open>{ not: null }\<close> give false.
\<close>

theorem negation_law_counterexample:
  "\<not> negation_law cv_plain None (JStr ''2xx3xx'') \<and> \<not> negation_law cv_plain (Some 500) JNull"
  by (simp add: negation_law_def negate_def matchesExpectation.simps bindE_def)

text \<open>C3: with an absent status the matcher answers false for every rule.\<close>

theorem matches_absent_false: "matchesExpectation cv None R = Inr False"
  by (subst matchesExpectation.simps) simp



text \<open>
  C9: for a numeric status code \<open>s\<close> and a rule object whose \<^verbatim>\<open>not\<close> is a truthy value,
  the matcher returns the negation of the boolean that evaluating that value returns,
  whenever that evaluation returns (and throws what it throws); a value of none of the
  recognized forms evaluates to false, so the rule that negates it matches every numeric
  status code.
\<close>

theorem negation_of_malformed:
  assumes "truthy e" "typeof e = ''object''" "truthy (prop_val e ''not'')"
  shows "matchesExpectation cv (Some s) e =
           bindE (matchesExpectation cv (Some s) (prop_val e ''not'')) (\<lambda>b. Inr (\<not> b)) \<and>
         (matchesExpectation cv (Some s) (prop_val e ''not'') = Inr b \<longrightarrow>
            matchesExpectation cv (Some s) e = Inr (\<not> b)) \<and>
         (unrecognized (prop_val e ''not'') \<longrightarrow> matchesExpectation cv (Some s) e = Inr True)"
proof -
  have e: "matchesExpectation cv (Some s) e =
           bindE (matchesExpectation cv (Some s) (prop_val e ''not'')) (\<lambda>b. Inr (\<not> b))"
    using assms by (rule matches_not)
  then show ?thesis by (simp add: bindE_def matches_unrecognized)
qed

theorem negation_of_malformed_witness:
  "truthy (JObj [(''not'', JObj [(''between'', JNum (Fin 200))])]) \<and>
   typeof (JObj [(''not'', JObj [(''between'', JNum (Fin 200))])]) = ''object'' \<and>
   truthy (prop_val (JObj [(''not'', JObj [(''between'', JNum (Fin 200))])]) ''not'') \<and>
   unrecognized (prop_val (JObj [(''not'', JObj [(''between'', JNum (Fin 200))])]) ''not'') \<and>
   matchesExpectation cv_plain (Some 500) (JObj [(''not'', JObj [(''between'', JNum (Fin 200))])])
     = Inr True"
proof -
  have p: "prop_val (JObj [(''not'', JObj [(''between'', JNum (Fin 200))])]) ''not'' =
           JObj [(''between'', JNum (Fin 200))]"
    by (simp add: prop_val_def)
  have u: "unrecognized (JObj [(''between'', JNum (Fin 200))])"
    by (simp add: unrecognized_def recognized_def prop_val_def wellformed_range_def)
  have "truthy (JObj [(''not'', JObj [(''between'', JNum (Fin 200))])])"
    "typeof (JObj [(''not'', JObj [(''between'', JNum (Fin 200))])]) = ''object''"
    "truthy (prop_val (JObj [(''not'', JObj [(''between'', JNum (Fin 200))])]) ''not'')"
    by (simp_all add: p)
  from negation_of_malformed [OF this, of cv_plain 500 False, THEN conjunct2, THEN conjunct2]
  have "matchesExpectation cv_plain (Some 500)
          (JObj [(''not'', JObj [(''between'', JNum (Fin 200))])]) = Inr True"
    using u by (simp add: p)
  then show ?thesis using u by (simp add: p)
qed

section \<open>Single probes\<close>

lemma sleeps_append: "sleeps (xs @ ys) = sleeps xs @ sleeps ys"
  by (induction xs rule: sleeps.induct) simp_all

lemma timers_append: "timers (xs @ ys) = timers xs @ timers ys"
  by (induction xs rule: timers.induct) simp_all

lemma fetches_append: "fetches (xs @ ys) = fetches xs @ fetches ys"
  by (induction xs rule: fetches.induct) simp_all

lemma pacing_append: "pacing (xs @ ys) = pacing xs @ pacing ys"
  by (induction xs rule: pacing.induct) simp_all

text \<open>\<^verbatim>\<open>checkOnce\<close> in closed form: what it returns and what it leaves in the trace.\<close>

lemma checkOnce_eq:
  "checkOnce cv rt monitor t s =
    (let m = probe_method monitor; u = url monitor;
         r1 = fst (rt_fetch rt u m (world s)); w1 = snd (rt_fetch rt u m (world s));
         r2 = fst (rt_fetch rt u ''GET'' w1); w2 = snd (rt_fetch rt u ''GET'' w1)
     in if m = ''HEAD'' \<and> rejects_head r1 then
          (attempt_of cv monitor r2 (rt_now rt w2 - rt_now rt (world s)),
           \<lparr>world = w2,
            trace = trace s @ [SetTimeout t, Fetch u ''HEAD'', Fetch u ''GET'', ClearTimeout]\<rparr>)
        else
          (attempt_of cv monitor r1 (rt_now rt w1 - rt_now rt (world s)),
           \<lparr>world = w1, trace = trace s @ [SetTimeout t, Fetch u m, ClearTimeout]\<rparr>))"
  by (auto simp: checkOnce_def do_fetch_def emit_def rejects_head_def Let_def
           split: prod.splits fetch_result.splits)

text \<open>A rule whose evaluation throws: the \<^verbatim>\<open>catch\<close> block records the attempt, with no
  status and the message of the error, also for a response with status 200.\<close>

lemma attempt_of_rule_that_throws:
  "attempt_of cv_plain
     (example_monitor\<lparr>expect :=
        JObj [(''between'', JArr [JObj [(''toString'', JNum (Fin 1))], JNum (Fin 299)])]\<rparr>)
     (Response 200 ''OK'') d =
   \<lparr>ok = False, status = None, statusText = None,
    error = Some ''Cannot convert object to primitive value'', durationMs = d\<rparr>"
  by (simp add: attempt_of_def matches_bound_without_primitive bindE_def error_text_def
        type_error_def)

lemma checkOnce_sleeps: "sleeps (trace (snd (checkOnce cv rt m t s))) = sleeps (trace s)"
  by (simp add: checkOnce_eq Let_def sleeps_append)

lemma checkOnce_timers: "timers (trace (snd (checkOnce cv rt m t s))) = timers (trace s) @ [t]"
  by (simp add: checkOnce_eq Let_def timers_append)

lemma checkOnce_pacing:
  "pacing (trace (snd (checkOnce cv rt m t s))) = pacing (trace s) @ [SetTimeout t]"
  by (simp add: checkOnce_eq Let_def pacing_append)

lemma sleep_sleeps: "sleeps (trace (sleep rt ms s)) = sleeps (trace s) @ [ms]"
  by (simp add: sleep_def sleeps_append)

lemma sleep_timers: "timers (trace (sleep rt ms s)) = timers (trace s)"
  by (simp add: sleep_def timers_append)

lemma sleep_pacing: "pacing (trace (sleep rt ms s)) = pacing (trace s) @ [Sleep ms]"
  by (simp add: sleep_def pacing_append)

text \<open>
  C5: a probe whose method is HEAD and whose first response has status 405 or 501 issues
  exactly the requests HEAD and then GET to the monitor's address, and its attempt is the
  one built from the outcome of the GET; every other probe issues its one request and
  builds its attempt from that outcome. So a probe issues at most two requests.
\<close>

theorem head_fallback:
  "(let m = probe_method monitor; u = url monitor;
        r1 = fst (rt_fetch rt u m (world s)); w1 = snd (rt_fetch rt u m (world s));
        out = checkOnce cv rt monitor t s
    in (if m = ''HEAD'' \<and> rejects_head r1
        then fetches (trace (snd out)) = fetches (trace s) @ [(u, ''HEAD''), (u, ''GET'')] \<and>
             (\<exists>d. fst out = attempt_of cv monitor (fst (rt_fetch rt u ''GET'' w1)) d)
        else fetches (trace (snd out)) = fetches (trace s) @ [(u, m)] \<and>
             (\<exists>d. fst out = attempt_of cv monitor r1 d)) \<and>
       length (fetches (trace (snd out))) \<le> length (fetches (trace s)) + 2)"
  by (auto simp: checkOnce_eq Let_def fetches_append)

theorem head_fallback_witness:
  "probe_method example_monitor = ''HEAD'' \<and>
   rejects_head (Response 405 ''Method Not Allowed'') \<and>
   fetches (trace (snd (checkOnce cv_plain scripted example_monitor 8000
      (script [Response 405 ''Method Not Allowed'', Response 200 ''OK'']))))
     = [(''https://a.example'', ''HEAD''), (''https://a.example'', ''GET'')] \<and>
   status (fst (checkOnce cv_plain scripted example_monitor 8000
      (script [Response 405 ''Method Not Allowed'', Response 200 ''OK'']))) = Some 200"
proof -
  let ?s = "script [Response 405 ''Method Not Allowed'', Response 200 ''OK'']"
  let ?out = "checkOnce cv_plain scripted example_monitor 8000 ?s"
  have h: "probe_method example_monitor = ''HEAD''"
    by (simp add: probe_method_def example_monitor_def)
  have u: "url example_monitor = ''https://a.example''" by (simp add: example_monitor_def)
  have r: "rejects_head (Response 405 ''Method Not Allowed'')" by (simp add: rejects_head_def)
  have f1: "rt_fetch scripted ''https://a.example'' ''HEAD'' (world ?s) =
            (Response 405 ''Method Not Allowed'', ([Response 200 ''OK''], 1))"
    by (simp add: scripted_def script_def)
  have f2: "rt_fetch scripted ''https://a.example'' ''GET'' ([Response 200 ''OK''], 1) =
            (Response 200 ''OK'', ([], 2))"
    by (simp add: scripted_def)
  have "fetches (trace (snd ?out)) = [(''https://a.example'', ''HEAD''), (''https://a.example'', ''GET'')] \<and>
        (\<exists>d. fst ?out = attempt_of cv_plain example_monitor (Response 200 ''OK'') d)"
    using head_fallback [of example_monitor scripted ?s cv_plain 8000] h r
    by (simp add: Let_def u f1 f2) (simp add: script_def)
  moreover have "status (attempt_of cv_plain example_monitor (Response 200 ''OK'') d) = Some 200" for d
    by (simp add: attempt_of_def example_monitor_def matchesExpectation.simps bindE_def)
  ultimately show ?thesis using h r by auto
qed

section \<open>Retries\<close>

lemma retry_loop_exit:
  "\<not> i \<le> tot \<Longrightarrow> retry_loop cv rt m t tot i atts s = (summarizeAttempts m atts, s)"
  by (subst retry_loop.simps) simp

lemma retry_loop_step:
  "i \<le> tot \<Longrightarrow> checkOnce cv rt m t s = (att, s1) \<Longrightarrow>
   retry_loop cv rt m t tot i atts s =
     (if ok att then (summarizeAttempts m (atts @ [att]), s1)
      else retry_loop cv rt m t tot (i + 1) (atts @ [att])
             (if i < tot then sleep rt (backoffMs i) s1 else s1))"
  by (subst retry_loop.simps) simp

text \<open>The loop, entered with an iteration to run, adds at least one attempt.\<close>

lemma retry_loop_spec:
  "i \<le> tot \<Longrightarrow>
   \<exists>new. loop_post m t tot i atts s new (retry_loop cv rt m t tot i atts s)"
proof (induction "nat (tot - i)" arbitrary: i atts s)
  case 0
  then have it: "i = tot" by simp
  obtain att s1 where c: "checkOnce cv rt m t s = (att, s1)" by (cases "checkOnce cv rt m t s")
  have s1: "s1 = snd (checkOnce cv rt m t s)" using c by simp
  have "retry_loop cv rt m t tot i atts s = (summarizeAttempts m (atts @ [att]), s1)"
    using it c by (simp add: retry_loop_step retry_loop_exit)
  then have "loop_post m t tot i atts s [att] (retry_loop cv rt m t tot i atts s)"
    using it by (simp add: loop_post_def s1 checkOnce_sleeps checkOnce_timers checkOnce_pacing)
  then show ?case by blast
next
  case (Suc n)
  then have lt: "i < tot" by simp
  obtain att s1 where c: "checkOnce cv rt m t s = (att, s1)" by (cases "checkOnce cv rt m t s")
  have s1: "s1 = snd (checkOnce cv rt m t s)" using c by simp
  show ?case
  proof (cases "ok att")
    case True
    have "retry_loop cv rt m t tot i atts s = (summarizeAttempts m (atts @ [att]), s1)"
      using lt c True by (simp add: retry_loop_step)
    then have "loop_post m t tot i atts s [att] (retry_loop cv rt m t tot i atts s)"
      using lt True
      by (simp add: loop_post_def s1 checkOnce_sleeps checkOnce_timers checkOnce_pacing)
    then show ?thesis by blast
  next
    case False
    let ?s2 = "sleep rt (backoffMs i) s1"
    have step: "retry_loop cv rt m t tot i atts s =
                retry_loop cv rt m t tot (i + 1) (atts @ [att]) ?s2"
      using lt c False by (simp add: retry_loop_step)
    have "n = nat (tot - (i + 1))" using Suc.hyps(2) by simp
    moreover have "i + 1 \<le> tot" using lt by simp
    ultimately obtain new where
      n: "loop_post m t tot (i + 1) (atts @ [att]) ?s2 new
            (retry_loop cv rt m t tot (i + 1) (atts @ [att]) ?s2)"
      using Suc.hyps(1) by blast
    have ne: "new \<noteq> []" using n by (simp add: loop_post_def)
    then have len: "1 \<le> int (length new)" by (cases new) simp_all
    have up: "[i .. i + int (length new) - 1] = i # [i + 1 .. i + 1 + int (length new) - 2]"
      using len by (subst upto_rec1) (simp_all add: algebra_simps)
    obtain k where k: "length new = Suc k" using ne by (cases new) simp_all
    have pc: "expected_pacing t i (Suc (length new)) =
              SetTimeout t # Sleep (backoffMs i) # expected_pacing t (i + 1) (length new)"
      by (simp add: k)
    have "loop_post m t tot i atts s (att # new) (retry_loop cv rt m t tot i atts s)"
      using n False up pc unfolding step loop_post_def
      by (simp add: s1 sleep_sleeps sleep_timers sleep_pacing checkOnce_sleeps checkOnce_timers
            checkOnce_pacing replicate_append_same algebra_simps)
    then show ?thesis by blast
  qed
qed

text \<open>The loop along the sequence of probe outcomes: it runs the probes \<open>k + 1\<close> to
  \<open>N\<close> when those before the \<open>N\<close>-th fail and the \<open>N\<close>-th succeeds or is the last allowed
  one, and it returns in the state the \<open>N\<close>-th probe leaves.\<close>

lemma retry_loop_run:
  assumes "k < N" "int N \<le> tot"
    and "\<forall>j. k \<le> j \<and> j < N - 1 \<longrightarrow> \<not> ok (nth_attempt cv rt m t tot s0 j)"
    and "ok (nth_attempt cv rt m t tot s0 (N - 1)) \<or> int N = tot"
  shows "retry_loop cv rt m t tot (int k + 1) atts (nth_state cv rt m t tot k s0) =
           (summarizeAttempts m (atts @ map (nth_attempt cv rt m t tot s0) [k..<N]),
            snd (checkOnce cv rt m t (nth_state cv rt m t tot (N - 1) s0)))"
  using assms
proof (induction "N - 1 - k" arbitrary: k atts)
  case 0
  then have k: "N - 1 = k" by simp
  have kN: "[k..<N] = [k]" using k "0.prems"(1) by (simp add: upt_conv_Cons)
  have i: "int k + 1 \<le> tot" using k "0.prems" by simp
  let ?a = "nth_attempt cv rt m t tot s0 k"
  let ?s1 = "snd (checkOnce cv rt m t (nth_state cv rt m t tot k s0))"
  have c: "checkOnce cv rt m t (nth_state cv rt m t tot k s0) = (?a, ?s1)"
    by (simp add: nth_attempt_def)
  have "retry_loop cv rt m t tot (int k + 1) atts (nth_state cv rt m t tot k s0) =
        (summarizeAttempts m (atts @ [?a]), ?s1)"
  proof (cases "ok ?a")
    case True
    then show ?thesis by (simp add: retry_loop_step[OF i c])
  next
    case False
    then have "int N = tot" using "0.prems"(4) k by simp
    then have "\<not> int k + 1 < tot" "\<not> int k + 1 + 1 \<le> tot" using k "0.prems"(1) by auto
    then show ?thesis using False
      by (simp add: retry_loop_step[OF i c] retry_loop_exit)
  qed
  then show ?case using k by (simp add: kN)
next
  case (Suc n)
  then have k: "k < N - 1" by simp
  then have fail: "\<not> ok (nth_attempt cv rt m t tot s0 k)" using Suc.prems(3) by simp
  have i: "int k + 1 \<le> tot" "int k + 1 < tot" using k Suc.prems(2) by simp_all
  have c: "checkOnce cv rt m t (nth_state cv rt m t tot k s0) =
           (nth_attempt cv rt m t tot s0 k, snd (checkOnce cv rt m t (nth_state cv rt m t tot k s0)))"
    by (simp add: nth_attempt_def)
  have nxt: "sleep rt (backoffMs (int k + 1))
               (snd (checkOnce cv rt m t (nth_state cv rt m t tot k s0))) =
             nth_state cv rt m t tot (Suc k) s0"
  proof -
    have "int (Suc k) < tot" "int (Suc k) = int k + 1" using i(2) by simp_all
    then show ?thesis by (simp only: nth_state.simps Let_def if_True)
  qed
  have idx: "int k + 1 + 1 = int (Suc k) + 1" by simp
  have "retry_loop cv rt m t tot (int k + 1) atts (nth_state cv rt m t tot k s0) =
        retry_loop cv rt m t tot (int k + 1 + 1) (atts @ [nth_attempt cv rt m t tot s0 k])
          (sleep rt (backoffMs (int k + 1))
             (snd (checkOnce cv rt m t (nth_state cv rt m t tot k s0))))"
    unfolding retry_loop_step[OF i(1) c] using fail i(2) by (simp only: if_False if_True)
  then have step: "retry_loop cv rt m t tot (int k + 1) atts (nth_state cv rt m t tot k s0) =
              retry_loop cv rt m t tot (int (Suc k) + 1)
                (atts @ [nth_attempt cv rt m t tot s0 k]) (nth_state cv rt m t tot (Suc k) s0)"
    by (simp only: nxt idx)
  have "n = N - 1 - Suc k" using Suc.hyps(2) by simp
  moreover have "Suc k < N" using k by simp
  moreover have "\<forall>j. Suc k \<le> j \<and> j < N - 1 \<longrightarrow> \<not> ok (nth_attempt cv rt m t tot s0 j)"
    using Suc.prems(3) by simp
  ultimately have
    "retry_loop cv rt m t tot (int (Suc k) + 1)
       (atts @ [nth_attempt cv rt m t tot s0 k]) (nth_state cv rt m t tot (Suc k) s0) =
     (summarizeAttempts m
        ((atts @ [nth_attempt cv rt m t tot s0 k]) @ map (nth_attempt cv rt m t tot s0) [Suc k..<N]),
      snd (checkOnce cv rt m t (nth_state cv rt m t tot (N - 1) s0)))"
    using Suc.hyps(1) Suc.prems(2,4) by blast
  moreover have "[k..<N] = k # [Suc k..<N]" using Suc.prems(1) by (simp add: upt_conv_Cons)
  ultimately show ?case using step by simp
qed

lemma summarize_nonempty:
  "atts \<noteq> [] \<Longrightarrow>
   \<exists>r. summarizeAttempts m atts = Inr r \<and> attemptDetails r = atts \<and>
       attempts r = int (length atts) \<and> r_ok r = list_ex ok atts \<and>
       lastStatus r = status (last atts) \<and> lastError r = error (last atts)"
  by (simp add: summarizeAttempts_def Let_def last_conv_nth)

lemma all_but_last:
  "atts \<noteq> [] \<Longrightarrow> list_all (\<lambda>a. \<not> ok a) (butlast atts) \<Longrightarrow> list_ex ok atts = ok (last atts)"
  by (induction atts) (auto simp: list_ex_iff list_all_iff)

lemma totalAttempts_pos: "1 \<le> totalAttempts R"
  by (simp add: totalAttempts_def)

text \<open>What every call of \<^verbatim>\<open>checkWithRetries\<close> gives.\<close>

lemma checkWithRetries_post:
  "\<exists>new. loop_post m t (totalAttempts R) 1 [] s new (checkWithRetries cv rt m t R s)"
  unfolding checkWithRetries_def by (rule retry_loop_spec) (rule totalAttempts_pos)

lemma checkWithRetries_run:
  assumes "1 \<le> N" "int N \<le> totalAttempts R"
    and "\<forall>k < N - 1. \<not> ok (nth_attempt cv rt m t (totalAttempts R) s k)"
    and "ok (nth_attempt cv rt m t (totalAttempts R) s (N - 1)) \<or> int N = totalAttempts R"
  shows "checkWithRetries cv rt m t R s =
           (summarizeAttempts m (map (nth_attempt cv rt m t (totalAttempts R) s) [0..<N]),
            snd (checkOnce cv rt m t (nth_state cv rt m t (totalAttempts R) (N - 1) s)))"
  using retry_loop_run[of 0 N "totalAttempts R" cv rt m t s "[]"] assms
  by (simp add: checkWithRetries_def)

text \<open>
  C1: \<^verbatim>\<open>checkWithRetries\<close> with \<^verbatim>\<open>retries\<close> = \<open>R\<close> returns a result after at least one
  and at most \<open>max 1 (R + 1)\<close> probes, one recorded attempt per probe, and its \<^verbatim>\<open>ok\<close> says
  that some recorded attempt succeeded. When the first \<open>N - 1\<close> probe outcomes fail and
  the \<open>N\<close>-th succeeds (\<open>N \<le> max 1 (R + 1)\<close>), it returns in the state the \<open>N\<close>-th probe
  leaves, with exactly these \<open>N\<close> outcomes recorded and \<^verbatim>\<open>ok\<close> true. When all
  \<open>max 1 (R + 1)\<close> outcomes fail, exactly these are recorded and \<^verbatim>\<open>ok\<close> is false.
\<close>

theorem retry_attempt_count:
  "totalAttempts R = max 1 (R + 1) \<and>
   (\<exists>r. fst (checkWithRetries cv rt m t R s) = Inr r \<and>
        1 \<le> attempts r \<and> attempts r \<le> totalAttempts R \<and>
        attempts r = int (length (attemptDetails r)) \<and>
        timers (trace (snd (checkWithRetries cv rt m t R s))) =
          timers (trace s) @ replicate (nat (attempts r)) t \<and>
        r_ok r = list_ex ok (attemptDetails r)) \<and>
   (1 \<le> N \<and> int N \<le> totalAttempts R \<and>
    (\<forall>k < N - 1. \<not> ok (nth_attempt cv rt m t (totalAttempts R) s k)) \<and>
    ok (nth_attempt cv rt m t (totalAttempts R) s (N - 1)) \<longrightarrow>
      (\<exists>r. checkWithRetries cv rt m t R s =
             (Inr r, snd (checkOnce cv rt m t (nth_state cv rt m t (totalAttempts R) (N - 1) s))) \<and>
           attemptDetails r = map (nth_attempt cv rt m t (totalAttempts R) s) [0..<N] \<and>
           attempts r = int N \<and> r_ok r)) \<and>
   ((\<forall>k < nat (totalAttempts R). \<not> ok (nth_attempt cv rt m t (totalAttempts R) s k)) \<longrightarrow>
      (\<exists>r. fst (checkWithRetries cv rt m t R s) = Inr r \<and>
           attemptDetails r =
             map (nth_attempt cv rt m t (totalAttempts R) s) [0..<nat (totalAttempts R)] \<and>
           attempts r = totalAttempts R \<and> \<not> r_ok r))"
proof (intro conjI impI)
  show "totalAttempts R = max 1 (R + 1)" by (simp add: totalAttempts_def)
next
  obtain new where
    n: "loop_post m t (totalAttempts R) 1 [] s new (checkWithRetries cv rt m t R s)"
    using checkWithRetries_post by blast
  then have ne: "new \<noteq> []" by (simp add: loop_post_def)
  then obtain r where r: "summarizeAttempts m new = Inr r" "attemptDetails r = new"
    "attempts r = int (length new)" "r_ok r = list_ex ok new"
    using summarize_nonempty by blast
  have "1 \<le> int (length new)" using ne by (cases new) simp_all
  then show "\<exists>r. fst (checkWithRetries cv rt m t R s) = Inr r \<and>
        1 \<le> attempts r \<and> attempts r \<le> totalAttempts R \<and>
        attempts r = int (length (attemptDetails r)) \<and>
        timers (trace (snd (checkWithRetries cv rt m t R s))) =
          timers (trace s) @ replicate (nat (attempts r)) t \<and>
        r_ok r = list_ex ok (attemptDetails r)"
    using n r by (auto simp: loop_post_def)
next
  let ?att = "nth_attempt cv rt m t (totalAttempts R) s"
  assume a: "1 \<le> N \<and> int N \<le> totalAttempts R \<and>
    (\<forall>k < N - 1. \<not> ok (?att k)) \<and> ok (?att (N - 1))"
  then have run: "checkWithRetries cv rt m t R s =
      (summarizeAttempts m (map ?att [0..<N]),
       snd (checkOnce cv rt m t (nth_state cv rt m t (totalAttempts R) (N - 1) s)))"
    by (intro checkWithRetries_run) simp_all
  have ne: "map ?att [0..<N] \<noteq> []" using a by simp
  then obtain r where r: "summarizeAttempts m (map ?att [0..<N]) = Inr r"
    "attemptDetails r = map ?att [0..<N]" "attempts r = int (length (map ?att [0..<N]))"
    "r_ok r = list_ex ok (map ?att [0..<N])"
    using summarize_nonempty by blast
  have "N - 1 \<in> set [0..<N]" using a by simp
  then have "list_ex ok (map ?att [0..<N])" using a unfolding list_ex_iff by auto
  then show "\<exists>r. checkWithRetries cv rt m t R s =
             (Inr r, snd (checkOnce cv rt m t (nth_state cv rt m t (totalAttempts R) (N - 1) s))) \<and>
           attemptDetails r = map ?att [0..<N] \<and> attempts r = int N \<and> r_ok r"
    using run r by simp
next
  let ?att = "nth_attempt cv rt m t (totalAttempts R) s"
  let ?T = "nat (totalAttempts R)"
  assume a: "\<forall>k < ?T. \<not> ok (?att k)"
  have T: "1 \<le> ?T" "int ?T = totalAttempts R" using totalAttempts_pos[of R] by simp_all
  have run: "checkWithRetries cv rt m t R s =
      (summarizeAttempts m (map ?att [0..<?T]),
       snd (checkOnce cv rt m t (nth_state cv rt m t (totalAttempts R) (?T - 1) s)))"
    using a T by (intro checkWithRetries_run) simp_all
  have ne: "map ?att [0..<?T] \<noteq> []" using T by simp
  then obtain r where r: "summarizeAttempts m (map ?att [0..<?T]) = Inr r"
    "attemptDetails r = map ?att [0..<?T]" "attempts r = int (length (map ?att [0..<?T]))"
    "r_ok r = list_ex ok (map ?att [0..<?T])"
    using summarize_nonempty by blast
  have "\<not> list_ex ok (map ?att [0..<?T])" using a unfolding list_ex_iff by auto
  then show "\<exists>r. fst (checkWithRetries cv rt m t R s) = Inr r \<and>
           attemptDetails r = map ?att [0..<?T] \<and> attempts r = totalAttempts R \<and> \<not> r_ok r"
    using run r T by simp
qed

theorem retry_attempt_count_witness:
  "1 \<le> (2::nat) \<and> int 2 \<le> totalAttempts 2 \<and>
   \<not> ok (nth_attempt cv_plain scripted example_monitor 8000 (totalAttempts 2)
           (script [Response 500 ''Server Error'', Response 200 ''OK'']) 0) \<and>
   ok (nth_attempt cv_plain scripted example_monitor 8000 (totalAttempts 2)
         (script [Response 500 ''Server Error'', Response 200 ''OK'']) (2 - 1)) \<and>
   (\<exists>r. fst (checkWithRetries cv_plain scripted example_monitor 8000 2
               (script [Response 500 ''Server Error'', Response 200 ''OK''])) = Inr r \<and>
        attempts r = 2 \<and> r_ok r)"
proof -
  let ?s = "script [Response 500 ''Server Error'', Response 200 ''OK'']"
  let ?att = "nth_attempt cv_plain scripted example_monitor 8000 (totalAttempts 2) ?s"
  have a0: "\<not> ok (?att 0)" by code_simp
  have a1: "ok (?att (Suc 0))" by code_simp
  have h: "1 \<le> (2::nat) \<and> int 2 \<le> totalAttempts 2 \<and> (\<forall>k < 2 - 1. \<not> ok (?att k)) \<and>
           ok (?att (2 - 1))"
    using a0 a1 by (simp add: totalAttempts_def)
  then show ?thesis
    using a0 retry_attempt_count [of 2 cv_plain scripted example_monitor 8000 ?s 2] by auto
qed

text \<open>
  C10: the result of \<^verbatim>\<open>checkWithRetries\<close> has at least one attempt, every attempt
  before the last has failed, its \<^verbatim>\<open>ok\<close> is the \<^verbatim>\<open>ok\<close> of the last attempt, and
  \<^verbatim>\<open>lastStatus\<close> and \<^verbatim>\<open>lastError\<close> are those of the last attempt.
\<close>

theorem result_invariant:
  "\<exists>r. fst (checkWithRetries cv rt m t R s) = Inr r \<and>
       attemptDetails r \<noteq> [] \<and>
       list_all (\<lambda>a. \<not> ok a) (butlast (attemptDetails r)) \<and>
       r_ok r = ok (last (attemptDetails r)) \<and>
       lastStatus r = status (last (attemptDetails r)) \<and>
       lastError r = error (last (attemptDetails r))"
proof -
  obtain new where
    n: "loop_post m t (totalAttempts R) 1 [] s new (checkWithRetries cv rt m t R s)"
    using checkWithRetries_post by blast
  then have ne: "new \<noteq> []" and fails: "list_all (\<lambda>a. \<not> ok a) (butlast new)"
    by (simp_all add: loop_post_def)
  obtain r where r: "summarizeAttempts m new = Inr r" "attemptDetails r = new"
    "r_ok r = list_ex ok new" "lastStatus r = status (last new)" "lastError r = error (last new)"
    using summarize_nonempty[OF ne] by blast
  have "fst (checkWithRetries cv rt m t R s) = Inr r" using n r by (simp add: loop_post_def)
  then show ?thesis using r ne fails all_but_last[OF ne fails] by auto
qed

theorem result_invariant_witness:
  "\<exists>r. fst (checkWithRetries cv_plain scripted example_monitor 8000 2
              (script [Response 500 ''Server Error'', Response 200 ''OK''])) = Inr r \<and>
       attemptDetails r \<noteq> [] \<and>
       list_all (\<lambda>a. \<not> ok a) (butlast (attemptDetails r)) \<and>
       r_ok r = ok (last (attemptDetails r)) \<and>
       lastStatus r = status (last (attemptDetails r)) \<and>
       lastError r = error (last (attemptDetails r))"
  by (rule result_invariant)

text \<open>Some probe is the first to succeed, or all the allowed ones fail.\<close>

lemma first_success_or_last:
  assumes "1 \<le> tot"
  shows "\<exists>N. 1 \<le> N \<and> int N \<le> tot \<and> (\<forall>k < N - 1. \<not> P k) \<and> (P (N - 1) \<or> int N = tot)"
proof (cases "\<exists>k. int k < tot \<and> P k")
  case True
  define k where "k = (LEAST k. int k < tot \<and> P k)"
  have k: "int k < tot \<and> P k" unfolding k_def using True by (rule LeastI_ex)
  have "\<forall>j < k. \<not> P j"
  proof (intro allI impI)
    fix j assume j: "j < k"
    then have "\<not> (int j < tot \<and> P j)" unfolding k_def by (rule not_less_Least)
    then show "\<not> P j" using j k by simp
  qed
  then have "1 \<le> Suc k \<and> int (Suc k) \<le> tot \<and> (\<forall>j < Suc k - 1. \<not> P j) \<and>
             (P (Suc k - 1) \<or> int (Suc k) = tot)"
    using k by simp
  then show ?thesis by blast
next
  case False
  then have "1 \<le> nat tot \<and> int (nat tot) \<le> tot \<and> (\<forall>j < nat tot - 1. \<not> P j) \<and>
             (P (nat tot - 1) \<or> int (nat tot) = tot)"
    using assms by auto
  then show ?thesis by blast
qed

text \<open>
  C4: the delay slept after the \<open>i\<close>-th failed attempt (\<open>i\<close> from 1) is
  \<open>min 2000 (250 * 2 ^ (i - 1))\<close> milliseconds, so 250, 500, 1000, 2000 for four failures
  in a row. A run of \<^verbatim>\<open>checkWithRetries\<close> records \<open>n \<le> totalAttempts\<close> attempts, of
  which all but the last have failed and the last has succeeded or is the last allowed
  one; its sleeps are those of the failed attempts 1 to \<open>n - 1\<close> in this order, each
  between its probe and the next. When the probes before the \<open>N\<close>-th fail and the \<open>N\<close>-th
  succeeds or is the last allowed one (and there is always such an \<open>N\<close>), the run ends in
  the state that the \<open>N\<close>-th probe leaves: no sleep follows a successful attempt or the
  last allowed attempt.
\<close>

theorem backoff_delays:
  "(1 \<le> i \<longrightarrow> backoffMs i = min 2000 (250 * 2 ^ nat (i - 1))) \<and>
   map backoffMs [1, 2, 3, 4] = [250, 500, 1000, 2000] \<and>
   (\<exists>r. fst (checkWithRetries cv rt m t R s) = Inr r \<and>
        attempts r = int (length (attemptDetails r)) \<and>
        1 \<le> attempts r \<and> attempts r \<le> totalAttempts R \<and>
        list_all (\<lambda>a. \<not> ok a) (butlast (attemptDetails r)) \<and>
        (ok (last (attemptDetails r)) \<or> attempts r = totalAttempts R) \<and>
        sleeps (trace (snd (checkWithRetries cv rt m t R s))) =
          sleeps (trace s) @ map backoffMs [1 .. attempts r - 1] \<and>
        pacing (trace (snd (checkWithRetries cv rt m t R s))) =
          pacing (trace s) @ expected_pacing t 1 (nat (attempts r))) \<and>
   (1 \<le> N \<and> int N \<le> totalAttempts R \<and>
    (\<forall>k < N - 1. \<not> ok (nth_attempt cv rt m t (totalAttempts R) s k)) \<and>
    (ok (nth_attempt cv rt m t (totalAttempts R) s (N - 1)) \<or> int N = totalAttempts R) \<longrightarrow>
      snd (checkWithRetries cv rt m t R s) =
        snd (checkOnce cv rt m t (nth_state cv rt m t (totalAttempts R) (N - 1) s)) \<and>
      sleeps (trace (snd (checkWithRetries cv rt m t R s))) =
        sleeps (trace s) @ map backoffMs [1 .. int N - 1] \<and>
      pacing (trace (snd (checkWithRetries cv rt m t R s))) =
        pacing (trace s) @ expected_pacing t 1 N) \<and>
   (\<exists>N'. 1 \<le> N' \<and> int N' \<le> totalAttempts R \<and>
      (\<forall>k < N' - 1. \<not> ok (nth_attempt cv rt m t (totalAttempts R) s k)) \<and>
      (ok (nth_attempt cv rt m t (totalAttempts R) s (N' - 1)) \<or> int N' = totalAttempts R))"
proof -
  let ?run = "checkWithRetries cv rt m t R s"
  let ?att = "nth_attempt cv rt m t (totalAttempts R) s"
  obtain new where n: "loop_post m t (totalAttempts R) 1 [] s new ?run"
    using checkWithRetries_post by blast
  then have ne: "new \<noteq> []" by (simp add: loop_post_def)
  then obtain r where r: "summarizeAttempts m new = Inr r" "attemptDetails r = new"
    "attempts r = int (length new)"
    using summarize_nonempty by blast
  have fst_run: "fst ?run = Inr r" using n r by (simp add: loop_post_def)
  have len: "1 \<le> int (length new)" using ne by (cases new) simp_all
  have idx: "1 + int (length new) - 2 = int (length new) - 1" by simp
  have a: "1 \<le> i \<longrightarrow> backoffMs i = min 2000 (250 * 2 ^ nat (i - 1))"
    by (simp add: backoffMs_def power_int_def)
  have b: "map backoffMs [1, 2, 3, 4] = [250, 500, 1000, 2000]"
    by (simp add: backoffMs_def power_int_def)
  have c: "\<exists>r. fst ?run = Inr r \<and>
        attempts r = int (length (attemptDetails r)) \<and>
        1 \<le> attempts r \<and> attempts r \<le> totalAttempts R \<and>
        list_all (\<lambda>a. \<not> ok a) (butlast (attemptDetails r)) \<and>
        (ok (last (attemptDetails r)) \<or> attempts r = totalAttempts R) \<and>
        sleeps (trace (snd ?run)) = sleeps (trace s) @ map backoffMs [1 .. attempts r - 1] \<and>
        pacing (trace (snd ?run)) = pacing (trace s) @ expected_pacing t 1 (nat (attempts r))"
    using n r fst_run len idx by (auto simp: loop_post_def)
  have d: "snd ?run = snd (checkOnce cv rt m t (nth_state cv rt m t (totalAttempts R) (N - 1) s)) \<and>
      sleeps (trace (snd ?run)) = sleeps (trace s) @ map backoffMs [1 .. int N - 1] \<and>
      pacing (trace (snd ?run)) = pacing (trace s) @ expected_pacing t 1 N"
    if h: "1 \<le> N \<and> int N \<le> totalAttempts R \<and> (\<forall>k < N - 1. \<not> ok (?att k)) \<and>
           (ok (?att (N - 1)) \<or> int N = totalAttempts R)"
  proof -
    have run: "?run = (summarizeAttempts m (map ?att [0..<N]),
                 snd (checkOnce cv rt m t (nth_state cv rt m t (totalAttempts R) (N - 1) s)))"
      using h by (intro checkWithRetries_run) simp_all
    have "map ?att [0..<N] \<noteq> []" using h by simp
    then obtain r' where r': "summarizeAttempts m (map ?att [0..<N]) = Inr r'"
      "attempts r' = int (length (map ?att [0..<N]))"
      using summarize_nonempty by blast
    have "Inr r' = (Inr r :: thrown + result)" using run r' fst_run by simp
    then have "int (length new) = int N" using r r' by simp
    then have "length new = N" by simp
    then show ?thesis using n run idx by (simp add: loop_post_def)
  qed
  have e: "\<exists>N'. 1 \<le> N' \<and> int N' \<le> totalAttempts R \<and> (\<forall>k < N' - 1. \<not> ok (?att k)) \<and>
      (ok (?att (N' - 1)) \<or> int N' = totalAttempts R)"
    using first_success_or_last[OF totalAttempts_pos, of R "\<lambda>k. ok (?att k)"] by simp
  show ?thesis using a b c d e by blast
qed

theorem backoff_delays_witness:
  "(1::int) \<le> 3 \<and> backoffMs 3 = 1000 \<and>
   sleeps (trace (snd (checkWithRetries cv_plain scripted example_monitor 8000 4 (script []))))
     = [250, 500, 1000, 2000] \<and>
   pacing (trace (snd (checkWithRetries cv_plain scripted example_monitor 8000 4 (script []))))
     = [SetTimeout 8000, Sleep 250, SetTimeout 8000, Sleep 500, SetTimeout 8000, Sleep 1000,
        SetTimeout 8000, Sleep 2000, SetTimeout 8000] \<and>
   1 \<le> (2::nat) \<and> int 2 \<le> totalAttempts 4 \<and>
   \<not> ok (nth_attempt cv_plain scripted example_monitor 8000 (totalAttempts 4)
           (script [Response 500 ''Server Error'', Response 200 ''OK'']) 0) \<and>
   ok (nth_attempt cv_plain scripted example_monitor 8000 (totalAttempts 4)
         (script [Response 500 ''Server Error'', Response 200 ''OK'']) (2 - 1)) \<and>
   sleeps (trace (snd (checkWithRetries cv_plain scripted example_monitor 8000 4
      (script [Response 500 ''Server Error'', Response 200 ''OK''])))) = [250] \<and>
   pacing (trace (snd (checkWithRetries cv_plain scripted example_monitor 8000 4
      (script [Response 500 ''Server Error'', Response 200 ''OK''])))) =
     [SetTimeout 8000, Sleep 250, SetTimeout 8000]"
proof -
  let ?run = "checkWithRetries cv_plain scripted example_monitor 8000 4 (script [])"
  obtain r where r: "fst ?run = Inr r"
    "sleeps (trace (snd ?run)) = sleeps (trace (script [])) @ map backoffMs [1 .. attempts r - 1]"
    "pacing (trace (snd ?run)) =
       pacing (trace (script [])) @ expected_pacing 8000 1 (nat (attempts r))"
    using backoff_delays [of 3 cv_plain scripted example_monitor 8000 4 "script []" 1] by blast
  have "case fst ?run of Inl e \<Rightarrow> False | Inr r \<Rightarrow> attempts r = 5" by code_simp
  then have n: "attempts r = 5" using r(1) by simp
  have up: "[1 .. 4] = [1, 2, 3, 4::int]" by code_simp
  have b: "backoffMs 1 = 250" "backoffMs 2 = 500" "backoffMs 3 = 1000" "backoffMs 4 = 2000"
    using backoff_delays [of 3 cv_plain scripted example_monitor 8000 4 "script []" 1]
    by simp_all
  have p: "expected_pacing 8000 1 5 =
       [SetTimeout 8000, Sleep 250, SetTimeout 8000, Sleep 500, SetTimeout 8000, Sleep 1000,
        SetTimeout 8000, Sleep 2000, SetTimeout 8000]"
    using b by (simp add: eval_nat_numeral)
  have all_fail: "sleeps (trace (snd ?run)) = [250, 500, 1000, 2000] \<and>
      pacing (trace (snd ?run)) =
        [SetTimeout 8000, Sleep 250, SetTimeout 8000, Sleep 500, SetTimeout 8000, Sleep 1000,
         SetTimeout 8000, Sleep 2000, SetTimeout 8000]"
    using r(2,3) n up b p by (simp add: script_def)
  let ?s = "script [Response 500 ''Server Error'', Response 200 ''OK'']"
  let ?att = "nth_attempt cv_plain scripted example_monitor 8000 (totalAttempts 4) ?s"
  let ?run2 = "checkWithRetries cv_plain scripted example_monitor 8000 4 ?s"
  have a0: "\<not> ok (?att 0)" by code_simp
  have a1: "ok (?att (Suc 0))" by code_simp
  have h: "1 \<le> (2::nat) \<and> int 2 \<le> totalAttempts 4 \<and> (\<forall>k < 2 - 1. \<not> ok (?att k)) \<and>
           (ok (?att (2 - 1)) \<or> int 2 = totalAttempts 4)"
    using a0 a1 by (simp add: totalAttempts_def)
  have up2: "[1 .. int 2 - 1] = [1::int]" by code_simp
  have p2: "expected_pacing 8000 1 2 = [SetTimeout 8000, Sleep 250, SetTimeout 8000]"
    using b by (simp add: eval_nat_numeral)
  have "sleeps (trace (snd ?run2)) = sleeps (trace ?s) @ map backoffMs [1 .. int 2 - 1] \<and>
        pacing (trace (snd ?run2)) = pacing (trace ?s) @ expected_pacing 8000 1 2"
    using h backoff_delays [of 3 cv_plain scripted example_monitor 8000 4 ?s 2] by blast
  then have success: "sleeps (trace (snd ?run2)) = [250] \<and>
      pacing (trace (snd ?run2)) = [SetTimeout 8000, Sleep 250, SetTimeout 8000]"
    using b by (simp only: up2 p2) (simp add: script_def)
  show ?thesis using all_fail success a0 a1 b by (simp add: totalAttempts_def)
qed


section \<open>The worker pool\<close>

lemma length_store: "length (store ys idx v) = max (length ys) (Suc idx)"
  by (auto simp: store_def)

lemma store_same: "store ys idx v ! idx = Some v"
  by (auto simp: store_def nth_append)

lemma store_other: "j \<noteq> idx \<Longrightarrow> j < length ys \<Longrightarrow> store ys idx v ! j = ys ! j"
  by (auto simp: store_def nth_append)

lemma set_update_keep: "x \<in> set ws \<Longrightarrow> ws ! k \<noteq> x \<Longrightarrow> x \<in> set (ws[k := w])"
  by (induction ws arbitrary: k) (auto split: nat.splits)

lemma set_update_cases: "x \<in> set (ws[k := w]) \<Longrightarrow> x = w \<or> x \<in> set ws"
  using set_update_subset_insert[of ws k w] by auto

lemma pool_inv_launch: "pool_inv fn items p \<Longrightarrow> pool_inv fn items (launch items p)"
  unfolding pool_inv_def launch_def claim_def
  by (auto simp: less_Suc_eq)

lemma pool_inv_launch_all: "pool_inv fn items p \<Longrightarrow> pool_inv fn items (launch_all items n p)"
  by (induction n arbitrary: p) (simp_all add: pool_inv_launch)

lemma pool_inv_start: "pool_inv fn items (start items limit)"
  unfolding start_def by (rule pool_inv_launch_all) (simp add: pool_inv_def)

lemma workers_launch_all: "length (workers (launch_all items n p)) = length (workers p) + n"
  by (induction n arbitrary: p) (simp_all add: launch_def claim_def)

lemma workers_start: "length (workers (start items limit)) = nat (min limit (int (length items)))"
  by (simp add: start_def workers_launch_all)

text \<open>A step, when it is one, in closed form.\<close>

lemma resume_SomeD:
  assumes "resume fn items kv p = Some p1"
  obtains idx where "fst kv < length (workers p)" "workers p ! fst kv = Some idx"
    "idx < length items" "fn (items ! idx) (snd kv)"
    "p1 = (if cursor p < length items
           then \<lparr>cursor = cursor p + 1, ret = store (ret p) idx (snd kv),
                 workers = (workers p)[fst kv := Some (cursor p)]\<rparr>
           else \<lparr>cursor = cursor p, ret = store (ret p) idx (snd kv),
                 workers = (workers p)[fst kv := None]\<rparr>)"
  using assms
  by (auto simp: resume_def claim_def Let_def split: if_splits option.splits)

lemma resume_Some:
  "k < length (workers p) \<Longrightarrow> workers p ! k = Some idx \<Longrightarrow> idx < length items \<Longrightarrow>
   fn (items ! idx) v \<Longrightarrow>
   resume fn items (k, v) p =
     Some (if cursor p < length items
           then \<lparr>cursor = cursor p + 1, ret = store (ret p) idx v,
                 workers = (workers p)[k := Some (cursor p)]\<rparr>
           else \<lparr>cursor = cursor p, ret = store (ret p) idx v,
                 workers = (workers p)[k := None]\<rparr>)"
  by (simp add: resume_def claim_def Let_def)

lemma pool_inv_resume:
  assumes inv: "pool_inv fn items p" and r: "resume fn items kv p = Some p1"
  shows "pool_inv fn items p1"
proof -
  from r obtain idx where k: "fst kv < length (workers p)" and w: "workers p ! fst kv = Some idx"
    and idx: "idx < length items" and fn: "fn (items ! idx) (snd kv)"
    and p1: "p1 = (if cursor p < length items
           then \<lparr>cursor = cursor p + 1, ret = store (ret p) idx (snd kv),
                 workers = (workers p)[fst kv := Some (cursor p)]\<rparr>
           else \<lparr>cursor = cursor p, ret = store (ret p) idx (snd kv),
                 workers = (workers p)[fst kv := None]\<rparr>)"
    by (rule resume_SomeD)
  have mem: "Some idx \<in> set (workers p)" using k w by (metis nth_mem)
  then have idxc: "idx < cursor p" using inv by (simp add: pool_inv_def)
  have done_idx: "idx < length (store (ret p) idx (snd kv)) \<and>
        (\<exists>v. store (ret p) idx (snd kv) ! idx = Some v \<and> fn (items ! idx) v)"
    using fn by (simp add: length_store store_same)
  have keep: "\<And>j. j < cursor p \<Longrightarrow> j \<noteq> idx \<Longrightarrow>
      Some j \<in> set ((workers p)[fst kv := w']) \<or>
      (j < length (store (ret p) idx (snd kv)) \<and>
       (\<exists>v. store (ret p) idx (snd kv) ! j = Some v \<and> fn (items ! j) v))" for w'
  proof -
    fix j assume j: "j < cursor p" "j \<noteq> idx"
    from inv j(1) have "Some j \<in> set (workers p) \<or>
        (j < length (ret p) \<and> (\<exists>v. ret p ! j = Some v \<and> fn (items ! j) v))"
      by (simp add: pool_inv_def)
    then show "Some j \<in> set ((workers p)[fst kv := w']) \<or>
      (j < length (store (ret p) idx (snd kv)) \<and>
       (\<exists>v. store (ret p) idx (snd kv) ! j = Some v \<and> fn (items ! j) v))"
    proof
      assume "Some j \<in> set (workers p)"
      moreover have "workers p ! fst kv \<noteq> Some j" using w j(2) by simp
      ultimately show ?thesis by (simp add: set_update_keep)
    next
      assume "j < length (ret p) \<and> (\<exists>v. ret p ! j = Some v \<and> fn (items ! j) v)"
      then show ?thesis using j(2) by (auto simp: length_store store_other less_max_iff_disj)
    qed
  qed
  show ?thesis
  proof (cases "cursor p < length items")
    case True
    then have p1': "p1 = \<lparr>cursor = cursor p + 1, ret = store (ret p) idx (snd kv),
                 workers = (workers p)[fst kv := Some (cursor p)]\<rparr>" using p1 by simp
    have noNone: "None \<notin> set (workers p)" using inv True by (auto simp: pool_inv_def)
    have a: "\<forall>i. Some i \<in> set ((workers p)[fst kv := Some (cursor p)]) \<longrightarrow> i < cursor p + 1"
      using inv by (auto dest!: set_update_cases simp: pool_inv_def less_Suc_eq)
    have b: "None \<notin> set ((workers p)[fst kv := Some (cursor p)])"
      using noNone by (auto dest!: set_update_cases)
    have c: "Some (cursor p) \<in> set ((workers p)[fst kv := Some (cursor p)])"
      using k by (simp add: set_update_memI)
    have d: "length (store (ret p) idx (snd kv)) \<le> cursor p + 1"
      using inv idxc by (simp add: length_store pool_inv_def)
    show ?thesis unfolding p1' pool_inv_def
      using True a b c d done_idx keep by (auto simp: less_Suc_eq)
  next
    case False
    then have p1': "p1 = \<lparr>cursor = cursor p, ret = store (ret p) idx (snd kv),
                 workers = (workers p)[fst kv := None]\<rparr>" using p1 by simp
    have cn: "cursor p = length items" using inv False by (simp add: pool_inv_def)
    have a: "\<forall>i. Some i \<in> set ((workers p)[fst kv := None]) \<longrightarrow> i < cursor p"
      using inv by (auto dest!: set_update_cases simp: pool_inv_def)
    have d: "length (store (ret p) idx (snd kv)) \<le> cursor p"
      using inv idxc by (simp add: length_store pool_inv_def)
    show ?thesis unfolding p1' pool_inv_def
      using cn a d done_idx keep by auto
  qed
qed

lemma workers_resume: "resume fn items kv p = Some p1 \<Longrightarrow> length (workers p1) = length (workers p)"
  by (erule resume_SomeD) (simp split: if_splits)

lemma pool_inv_run:
  "pool_inv fn items p \<Longrightarrow> run fn items sched p = Some p1 \<Longrightarrow>
   pool_inv fn items p1 \<and> length (workers p1) = length (workers p)"
proof (induction sched arbitrary: p)
  case Nil
  then show ?case by simp
next
  case (Cons kv sched)
  then obtain p2 where r: "resume fn items kv p = Some p2" and rest: "run fn items sched p2 = Some p1"
    by (auto split: option.splits)
  then show ?case using Cons.IH[of p2] Cons.prems(1) pool_inv_resume[OF _ r] workers_resume[OF r]
    by simp
qed

text \<open>When every worker has ended and there was a worker to run (or nothing to do), each
  position of \<^verbatim>\<open>ret\<close> holds a value of the item at that position.\<close>

lemma finished_result:
  assumes inv: "pool_inv fn items p" and fin: "finished p"
    and w: "workers p = [] \<longrightarrow> items = []"
  shows "length (ret p) = length items \<and>
         (\<forall>i < length items. \<exists>v. ret p ! i = Some v \<and> fn (items ! i) v)"
proof -
  have noSome: "\<And>j. Some j \<notin> set (workers p)" using fin by (auto simp: finished_def list_all_iff)
  have c: "cursor p = length items"
  proof (cases "workers p")
    case Nil
    then show ?thesis using w inv by (simp add: pool_inv_def)
  next
    case (Cons a ws)
    then have "a = None" using fin by (simp add: finished_def)
    then have "None \<in> set (workers p)" using Cons by simp
    then show ?thesis using inv by (simp add: pool_inv_def)
  qed
  have all: "\<forall>j < length items. j < length (ret p) \<and> (\<exists>v. ret p ! j = Some v \<and> fn (items ! j) v)"
    using inv noSome c by (auto simp: pool_inv_def)
  have "length (ret p) \<le> length items" using inv c by (simp add: pool_inv_def)
  moreover have "length items \<le> length (ret p)"
    using all by (cases "length items") (auto simp: not_less)
  ultimately show ?thesis using all by auto
qed

lemma mapLimit_complete:
  assumes "1 \<le> limit" "mapLimit items limit fn sched = Some ys"
  shows "length ys = length items \<and> (\<forall>i < length items. \<exists>v. ys ! i = Some v \<and> fn (items ! i) v)"
proof -
  from assms(2) obtain p where r: "run fn items sched (start items limit) = Some p"
    and fin: "finished p" and ys: "ys = ret p"
    by (auto simp: mapLimit_def split: option.splits if_splits)
  have inv: "pool_inv fn items p" and len: "length (workers p) = nat (min limit (int (length items)))"
    using pool_inv_run[OF pool_inv_start r] by (simp_all add: workers_start)
  have "workers p = [] \<longrightarrow> items = []" using len assms(1)
    by (cases items) (auto simp: min_def split: if_splits)
  then show ?thesis using finished_result[OF inv fin] ys by simp
qed

lemma busy_update_Some:
  "k < length ws \<Longrightarrow> ws ! k = Some a \<Longrightarrow> busy (ws[k := Some b]) = busy ws"
  unfolding busy_def
  by (induction ws arbitrary: k) (auto split: nat.splits simp: nth_Cons)

lemma busy_update_None:
  "k < length ws \<Longrightarrow> ws ! k = Some a \<Longrightarrow> Suc (busy (ws[k := None])) = busy ws"
  unfolding busy_def
  by (induction ws arbitrary: k) (auto split: nat.splits simp: nth_Cons)

lemma not_finished: "\<not> finished p \<Longrightarrow> \<exists>k idx. k < length (workers p) \<and> workers p ! k = Some idx"
  unfolding finished_def list_all_iff
  by (metis in_set_conv_nth not_None_eq)

text \<open>Every run can be continued to its end when \<^verbatim>\<open>fn\<close> resolves on every item: each
  step takes one from the calls still to resolve.\<close>

lemma run_exists:
  assumes "\<forall>x \<in> set items. \<exists>v. fn x v"
  shows "pool_inv fn items p \<Longrightarrow> \<exists>sched p1. run fn items sched p = Some p1 \<and> finished p1"
proof (induction "remaining items p" arbitrary: p rule: less_induct)
  case less
  show ?case
  proof (cases "finished p")
    case True
    then have "run fn items [] p = Some p \<and> finished p" by simp
    then show ?thesis by blast
  next
    case False
    then obtain k idx where k: "k < length (workers p)" and w: "workers p ! k = Some idx"
      using not_finished by blast
    then have "Some idx \<in> set (workers p)" by (metis nth_mem)
    then have idx: "idx < cursor p" "cursor p \<le> length items"
      using less.prems by (simp_all add: pool_inv_def)
    then have "items ! idx \<in> set items" by simp
    then obtain v where v: "fn (items ! idx) v" using assms by blast
    define p1 where "p1 = (if cursor p < length items
           then \<lparr>cursor = cursor p + 1, ret = store (ret p) idx v,
                 workers = (workers p)[k := Some (cursor p)]\<rparr>
           else \<lparr>cursor = cursor p, ret = store (ret p) idx v,
                 workers = (workers p)[k := None]\<rparr>)"
    have r: "resume fn items (k, v) p = Some p1"
      unfolding p1_def using k w idx v by (intro resume_Some) simp_all
    have inv1: "pool_inv fn items p1" using pool_inv_resume[OF less.prems r] .
    have "remaining items p1 < remaining items p"
      using k w idx busy_update_None[OF k w] busy_update_Some[OF k w, of "cursor p"]
      by (auto simp: p1_def remaining_def)
    from less.hyps[OF this inv1] obtain sched p2 where
      "run fn items sched p1 = Some p2" "finished p2" by blast
    then have "run fn items ((k, v) # sched) p = Some p2 \<and> finished p2" using r by simp
    then show ?thesis by blast
  qed
qed

lemma mapLimit_exists:
  assumes "\<forall>x \<in> set items. \<exists>v. fn x v"
  shows "\<exists>sched ys. mapLimit items limit fn sched = Some ys"
proof -
  obtain sched p1 where "run fn items sched (start items limit) = Some p1" "finished p1"
    using run_exists[OF assms pool_inv_start] by blast
  then have "mapLimit items limit fn sched = Some (ret p1)" by (simp add: mapLimit_def)
  then show ?thesis by blast
qed

lemma mapLimit_returns:
  assumes "1 \<le> limit" "mapLimit items limit (returns f) sched = Some ys"
  shows "ys = map (\<lambda>x. Some (f x)) items"
  using mapLimit_complete[OF assms] by (auto simp: returns_def list_eq_iff_nth_eq)

text \<open>
  C6, as amended: with a concurrency limit of at least 1, whatever the order in which the
  calls resolve, \<^verbatim>\<open>mapLimit\<close> returns an array with exactly one entry per item, and
  the entry at position \<open>i\<close> is a value the call on the item at position \<open>i\<close> resolved
  with (for a function \<open>f\<close>: the array is \<open>map f items\<close>); a complete run exists when the
  call resolves on every item. For the empty list it returns the empty array, for every
  limit.
\<close>

theorem mapLimit_order:
  "(1 \<le> limit \<and> mapLimit items limit fn sched = Some ys \<longrightarrow>
      length ys = length items \<and>
      (\<forall>i < length items. \<exists>v. ys ! i = Some v \<and> fn (items ! i) v)) \<and>
   (1 \<le> limit \<and> mapLimit items limit (returns f) sched = Some ys \<longrightarrow>
      ys = map (\<lambda>x. Some (f x)) items) \<and>
   ((\<forall>x \<in> set items. \<exists>v. fn x v) \<longrightarrow> (\<exists>sched' ys'. mapLimit items limit fn sched' = Some ys')) \<and>
   mapLimit [] limit fn [] = Some []"
proof (intro conjI impI)
  assume "1 \<le> limit \<and> mapLimit items limit fn sched = Some ys"
  then show "length ys = length items" "\<forall>i < length items. \<exists>v. ys ! i = Some v \<and> fn (items ! i) v"
    using mapLimit_complete[of limit items fn sched ys] by simp_all
next
  assume "1 \<le> limit \<and> mapLimit items limit (returns f) sched = Some ys"
  then show "ys = map (\<lambda>x. Some (f x)) items"
    using mapLimit_returns[of limit items f sched ys] by simp
next
  assume "\<forall>x \<in> set items. \<exists>v. fn x v"
  then show "\<exists>sched' ys'. mapLimit items limit fn sched' = Some ys'"
    by (rule mapLimit_exists)
next
  show "mapLimit [] limit fn [] = Some []"
    by (simp add: mapLimit_def start_def finished_def min_def)
qed

theorem mapLimit_order_witness:
  "(1::int) \<le> 2 \<and>
   mapLimit [10, 20, 30::nat] 2 (returns Suc) [(1, 21), (0, 11), (1, 31)]
     = Some [Some 11, Some 21, Some 31] \<and>
   mapLimit [10, 20, 30::nat] 2 (returns Suc) [(0, 11), (0, 31), (1, 21)]
     = Some [Some 11, Some 21, Some 31]"
proof -
  have "mapLimit [10, 20, 30::nat] 2 (returns Suc) [(1, 21), (0, 11), (1, 31)] \<noteq> None"
    by code_simp
  then have a: "\<exists>ys. mapLimit [10, 20, 30::nat] 2 (returns Suc) [(1, 21), (0, 11), (1, 31)] = Some ys"
    by blast
  have "mapLimit [10, 20, 30::nat] 2 (returns Suc) [(0, 11), (0, 31), (1, 21)] \<noteq> None"
    by code_simp
  then have b: "\<exists>ys. mapLimit [10, 20, 30::nat] 2 (returns Suc) [(0, 11), (0, 31), (1, 21)] = Some ys"
    by blast
  from a obtain ys where ys: "mapLimit [10, 20, 30::nat] 2 (returns Suc) [(1, 21), (0, 11), (1, 31)] = Some ys"
    by blast
  from b obtain zs where zs: "mapLimit [10, 20, 30::nat] 2 (returns Suc) [(0, 11), (0, 31), (1, 21)] = Some zs"
    by blast
  have "ys = map (\<lambda>x. Some (Suc x)) [10, 20, 30]"
    using ys mapLimit_order [of 2 "[10, 20, 30::nat]" "returns Suc" "[(1, 21), (0, 11), (1, 31)]" ys Suc]
    by simp
  moreover have "zs = map (\<lambda>x. Some (Suc x)) [10, 20, 30]"
    using zs mapLimit_order [of 2 "[10, 20, 30::nat]" "returns Suc" "[(0, 11), (0, 31), (1, 21)]" zs Suc]
    by simp
  ultimately show ?thesis using ys zs by simp
qed

text \<open>
  C6 as stated fails for a limit below 1: no worker is started, the promise of the empty
  list of workers resolves at once, and \<^verbatim>\<open>mapLimit\<close> returns the empty array for a
  list of one item.
\<close>

theorem mapLimit_limit_zero_counterexample:
  "mapLimit [7::nat] 0 (returns Suc) [] = Some [] \<and>
   length ([] :: nat option list) \<noteq> length [7::nat]"
  by (simp add: mapLimit_def start_def finished_def)

section \<open>The report\<close>

text \<open>
  C7: when the request passes the auth guard, the handler answers with a report in which
  \<^verbatim>\<open>down\<close> is the list of the results that are not ok, in their order, \<^verbatim>\<open>results\<close>
  is the list of all results, \<^verbatim>\<open>totals\<close> counts both (\<^verbatim>\<open>up\<close> is the difference),
  and \<^verbatim>\<open>ok\<close> holds exactly when nothing is down. For no results the totals are 0, 0, 0,
  \<^verbatim>\<open>ok\<close> is true, both lists are empty and the answer has status 200.
\<close>

theorem report_totals:
  "(\<not> unauthorized e authorization \<longrightarrow>
      (\<exists>rep code. handler e authorization results send startedAt now timestamp = (ReportBody rep, code) \<and>
         rep_down rep = filter (\<lambda>r. \<not> r_ok r) results \<and>
         rep_results rep = results \<and>
         checked (rep_totals rep) = int (length results) \<and>
         down (rep_totals rep) = int (length (rep_down rep)) \<and>
         up (rep_totals rep) = checked (rep_totals rep) - down (rep_totals rep) \<and>
         rep_ok rep = (down (rep_totals rep) = 0))) \<and>
   (\<not> unauthorized e authorization \<longrightarrow>
      (\<exists>rep. handler e authorization [] send startedAt now timestamp = (ReportBody rep, 200) \<and>
         rep_totals rep = \<lparr>checked = 0, down = 0, up = 0\<rparr> \<and> rep_ok rep \<and>
         rep_down rep = [] \<and> rep_results rep = []))"
  by (auto simp: handler_def Let_def split: send_result.splits)

theorem report_totals_witness:
  "\<not> unauthorized \<lparr>MONITOR_TOKEN = None, RESEND_API_KEY = Some ''key'',
                    ALERT_EMAIL_TO = Some ''to@a.example'',
                    ALERT_EMAIL_FROM = Some ''from@a.example''\<rparr> None \<and>
   (\<exists>rep code. handler \<lparr>MONITOR_TOKEN = None, RESEND_API_KEY = Some ''key'',
                    ALERT_EMAIL_TO = Some ''to@a.example'',
                    ALERT_EMAIL_FROM = Some ''from@a.example''\<rparr> None
        [up_result, down_result] send_ok 0 25 ''2026-01-16T10:30:00.000Z'' = (ReportBody rep, code) \<and>
      rep_down rep = [down_result] \<and>
      rep_totals rep = \<lparr>checked = 2, down = 1, up = 1\<rparr> \<and> \<not> rep_ok rep)"
proof -
  let ?e = "\<lparr>MONITOR_TOKEN = None, RESEND_API_KEY = Some ''key'',
             ALERT_EMAIL_TO = Some ''to@a.example'',
             ALERT_EMAIL_FROM = Some ''from@a.example''\<rparr>"
  have u: "\<not> unauthorized ?e None" by (simp add: unauthorized_def)
  have f: "filter (\<lambda>r. \<not> r_ok r) [up_result, down_result] = [down_result]"
    by (simp add: up_result_def down_result_def)
  obtain rep code where
    "handler ?e None [up_result, down_result] send_ok 0 25 ''2026-01-16T10:30:00.000Z''
       = (ReportBody rep, code)"
    "rep_down rep = filter (\<lambda>r. \<not> r_ok r) [up_result, down_result]"
    "checked (rep_totals rep) = int (length [up_result, down_result])"
    "down (rep_totals rep) = int (length (rep_down rep))"
    "up (rep_totals rep) = checked (rep_totals rep) - down (rep_totals rep)"
    "rep_ok rep = (down (rep_totals rep) = 0)"
    using u report_totals [of ?e None "[up_result, down_result]" send_ok 0 25
        "''2026-01-16T10:30:00.000Z''"]
    by blast
  then have "handler ?e None [up_result, down_result] send_ok 0 25 ''2026-01-16T10:30:00.000Z''
       = (ReportBody rep, code) \<and> rep_down rep = [down_result] \<and>
      rep_totals rep = \<lparr>checked = 2, down = 1, up = 1\<rparr> \<and> \<not> rep_ok rep"
    using f by (cases "rep_totals rep") simp
  then show ?thesis using u by blast
qed


end
